theory Spec2Isabelle
  imports Complex_Main "HOL-Library.AList"
begin

section \<open>JavaScript values\<close>

text \<open>
  The front end is TypeScript. Its objects are dynamic: the workflow store spreads parsed
  JSON over its defaults, so a typed record could not hold what the store may hold.
  Values are therefore modelled as a datatype. A number is a finite number, given by the
  rational it denotes (the two zeros are one number, as they are for \<^verbatim>\<open>===\<close>), or one of
  \<^verbatim>\<open>NaN\<close>, \<^verbatim>\<open>Infinity\<close>, \<^verbatim>\<open>-Infinity\<close>; the code modelled here stores, copies and prints
  numbers and does no arithmetic on them.
  A string is a list of characters; text outside ASCII is its UTF-8 bytes. An object is
  the list of its own properties in insertion order, one entry per key. Arrays and
  functions never occur in the state of the store and are outside the model.
\<close>

datatype nonfinite = NaN | PosInfinity | NegInfinity

datatype jsval =
    Undefined | Null | JBool bool | JNum rat | JNonFinite nonfinite | JStr string
  | JObj "(string \<times> jsval) list"

type_synonym obj = "(string \<times> jsval) list"

text \<open>Primitive values: what the leaves of the store's typed interfaces hold.\<close>

datatype prim =
  PUndefined | PNull | PBool bool | PNum rat | PNonFinite nonfinite | PStr string

fun lit :: "prim \<Rightarrow> jsval" where
  "lit PUndefined = Undefined"
| "lit PNull = Null"
| "lit (PBool b) = JBool b"
| "lit (PNum r) = JNum r"
| "lit (PNonFinite n) = JNonFinite n"
| "lit (PStr s) = JStr s"

text \<open>An argument of type \<^verbatim>\<open>number\<close>.\<close>

datatype number = Number rat | NonFinite nonfinite

fun number_val :: "number \<Rightarrow> jsval" where
  "number_val (Number r) = JNum r"
| "number_val (NonFinite n) = JNonFinite n"

text \<open>An optional string argument (\<^verbatim>\<open>id?: string\<close>): absent is \<^verbatim>\<open>undefined\<close>.\<close>

fun opt_str :: "string option \<Rightarrow> jsval" where
  "opt_str None = Undefined"
| "opt_str (Some s) = JStr s"

text \<open>Truthiness, as \<^verbatim>\<open>!v\<close>, \<^verbatim>\<open>v || w\<close> and \<^verbatim>\<open>if (v)\<close> read it.\<close>

fun truthy :: "jsval \<Rightarrow> bool" where
  "truthy Undefined = False"
| "truthy Null = False"
| "truthy (JBool b) = b"
| "truthy (JNum r) = (r \<noteq> 0)"
| "truthy (JNonFinite n) = (n \<noteq> NaN)"
| "truthy (JStr s) = (s \<noteq> [])"
| "truthy (JObj kvs) = True"

text \<open>\<^verbatim>\<open>v || w\<close> and \<^verbatim>\<open>v ?? w\<close>.\<close>

definition or_else :: "jsval \<Rightarrow> jsval \<Rightarrow> jsval" where
  "or_else v w = (if truthy v then v else w)"

definition nullish :: "jsval \<Rightarrow> bool" where
  "nullish v = (v = Undefined \<or> v = Null)"

definition coalesce :: "jsval \<Rightarrow> jsval \<Rightarrow> jsval" where
  "coalesce v w = (if nullish v then w else v)"

text \<open>
  Reading a property, \<^verbatim>\<open>v.k\<close>, of a value that is neither \<^verbatim>\<open>undefined\<close> nor
  \<^verbatim>\<open>null\<close> (there the read throws a TypeError, which each caller below writes out).
  The names the program reads are own properties of plain objects; on a primitive they
  are \<^verbatim>\<open>undefined\<close>.
\<close>

fun get_member :: "jsval \<Rightarrow> string \<Rightarrow> jsval" where
  "get_member (JObj kvs) k = (case map_of kvs k of Some x \<Rightarrow> x | None \<Rightarrow> Undefined)"
| "get_member v k = Undefined"

text \<open>Optional chaining, \<^verbatim>\<open>v?.k\<close>.\<close>

definition opt_member :: "jsval \<Rightarrow> string \<Rightarrow> jsval" where
  "opt_member v k = (if nullish v then Undefined else get_member v k)"

text \<open>Decimal digits of a natural number, for index keys and for \<^verbatim>\<open>String(n)\<close>.\<close>

function show_nat :: "nat \<Rightarrow> string" where
  "show_nat n =
     (if n < 10 then [''0123456789'' ! n]
      else show_nat (n div 10) @ [''0123456789'' ! (n mod 10)])"
  by pat_completeness auto
termination
  by (relation "measure id") auto

text \<open>
  The own enumerable properties of a value, which a spread \<^verbatim>\<open>{...v}\<close> copies: those of
  an object; the characters of a string under their indices; none for the other
  primitives, \<^verbatim>\<open>null\<close> and \<^verbatim>\<open>undefined\<close>.
\<close>

fun own_entries :: "jsval \<Rightarrow> obj" where
  "own_entries (JObj kvs) = kvs"
| "own_entries (JStr s) = zip (map show_nat [0..<length s]) (map (\<lambda>c. JStr [c]) s)"
| "own_entries v = []"

text \<open>
  Copying properties into an object under construction: an existing key keeps its
  place and takes the new value, a new key is appended (\<open>AList.update\<close>).
  \<^verbatim>\<open>{...a, ...b, k: v}\<close> is \<open>AList.update k v (spread (spread [] a) b)\<close>.
\<close>

definition assign :: "obj \<Rightarrow> obj \<Rightarrow> obj" where
  "assign target src = fold (\<lambda>kv. AList.update (fst kv) (snd kv)) src target"

definition spread :: "obj \<Rightarrow> jsval \<Rightarrow> obj" where
  "spread target v = assign target (own_entries v)"

text \<open>
  \<^verbatim>\<open>JSON.parse(JSON.stringify(v))\<close> for a value of the model: a property whose value is
  \<^verbatim>\<open>undefined\<close> is left out of the text, \<^verbatim>\<open>NaN\<close> and the infinities are written as
  \<^verbatim>\<open>null\<close>, everything else is written and read back as it is. A stored JSON text is
  represented by the value it denotes.
\<close>

primrec to_json :: "jsval \<Rightarrow> jsval" where
  "to_json Undefined = Undefined"
| "to_json Null = Null"
| "to_json (JBool b) = JBool b"
| "to_json (JNum r) = JNum r"
| "to_json (JNonFinite n) = Null"
| "to_json (JStr s) = JStr s"
| "to_json (JObj kvs) =
     JObj (filter (\<lambda>kv. snd kv \<noteq> Undefined) (map (map_prod id to_json) kvs))"

text \<open>
  \<^verbatim>\<open>String(v)\<close> of a boolean and of a number. An integer below \<open>2^53\<close> in absolute value
  (every such integer is a number of the runtime, and its shortest decimal form is its
  digits) is printed in decimal digits; for every other number the digits are those of
  the runtime's number formatting, a parameter \<open>fmt\<close> of the model.
\<close>

definition String_bool :: "bool \<Rightarrow> string" where
  "String_bool b = (if b then ''true'' else ''false'')"

definition String_num :: "(rat \<Rightarrow> string) \<Rightarrow> rat \<Rightarrow> string" where
  "String_num fmt r =
     (if r = of_int \<lfloor>r\<rfloor> \<and> \<bar>r\<bar> < 2 ^ 53
      then (if r < 0 then ''-'' else []) @ show_nat (nat \<bar>\<lfloor>r\<rfloor>\<bar>)
      else fmt r)"


section \<open>The QA service: query parameters of generateQA\<close>

text \<open>
  \<^verbatim>\<open>qaService.generateQA(files, options)\<close> (services/qaService.ts). The options object has
  required members (\<^verbatim>\<open>numPairs\<close>, \<^verbatim>\<open>useSuggested\<close>, \<^verbatim>\<open>includeReason\<close>,
  \<^verbatim>\<open>minDensityScore\<close>, \<^verbatim>\<open>minQualityScore\<close>) and optional ones. The code guards every
  member but \<^verbatim>\<open>useSuggested\<close> and \<^verbatim>\<open>includeReason\<close> with \<^verbatim>\<open>??\<close>, so those are options
  here: \<open>None\<close> is a member that is \<^verbatim>\<open>undefined\<close> or \<^verbatim>\<open>null\<close>.
\<close>

record GenerateQAOptions =
  numPairs :: "rat option"
  useSuggested :: bool
  suggestQACount :: "bool option"
  includeReason :: bool
  minDensityScore :: "rat option"
  minQualityScore :: "rat option"
  skipExtract :: "bool option"
  skipEvaluate :: "bool option"
  skipQA :: "bool option"
  skipQAEvaluate :: "bool option"
  minFactualScore :: "rat option"
  minOverallScore :: "rat option"
  samplePercentage :: "rat option"

text \<open>\<^verbatim>\<open>x ?? d\<close> on an optional member.\<close>

fun dflt :: "'a option \<Rightarrow> 'a \<Rightarrow> 'a" where
  "dflt None d = d"
| "dflt (Some x) d = x"

text \<open>
  \<^verbatim>\<open>const suggestQaCount = options.suggestQACount ?? options.useSuggested\<close>, then the
  entries of \<^verbatim>\<open>new URLSearchParams({...})\<close> in the order of the source. The query string
  of the request, \<^verbatim>\<open>params.toString()\<close>, is represented by this list of entries.
\<close>

definition generateQA_params :: "(rat \<Rightarrow> string) \<Rightarrow> GenerateQAOptions \<Rightarrow> (string \<times> string) list" where
  "generateQA_params fmt options =
     (let suggestQaCount = dflt (suggestQACount options) (useSuggested options) in
      [(''num_pairs_per_section'', String_num fmt (dflt (numPairs options) 5)),
       (''use_suggested_count'', String_bool (useSuggested options)),
       (''include_reason'', String_bool (includeReason options)),
       (''suggest_qa_count'', String_bool suggestQaCount),
       (''min_density_score'', String_num fmt (dflt (minDensityScore options) 5)),
       (''min_quality_score'', String_num fmt (dflt (minQualityScore options) 5)),
       (''skip_extract'', String_bool (dflt (skipExtract options) False)),
       (''skip_evaluate'', String_bool (dflt (skipEvaluate options) False)),
       (''skip_qa'', String_bool (dflt (skipQA options) False)),
       (''skip_qa_evaluate'', String_bool (dflt (skipQAEvaluate options) False)),
       (''min_factual_score'', String_num fmt (dflt (minFactualScore options) 7)),
       (''min_overall_score'', String_num fmt (dflt (minOverallScore options) 7)),
       (''qa_sample_percentage'', String_num fmt (dflt (samplePercentage options) 100))])"

text \<open>The value the query string carries under a key.\<close>

definition query_value :: "(string \<times> string) list \<Rightarrow> string \<Rightarrow> string option" where
  "query_value ps k = map_of ps k"


section \<open>The workflow store\<close>

text \<open>
  \<^verbatim>\<open>store/workflowStore.ts\<close>: a singleton \<^verbatim>\<open>WorkflowStore\<close> holding \<^verbatim>\<open>this.state\<close>, a
  \<^verbatim>\<open>WorkflowState\<close> with the three sections \<^verbatim>\<open>flmm\<close>, \<^verbatim>\<open>qa\<close> and \<^verbatim>\<open>evaluation\<close>. Every
  section is a plain object; its members are read and written by name.
\<close>

definition STORAGE_KEY :: string where
  "STORAGE_KEY = ''llm_eval_workflow_state''"

text \<open>\<^verbatim>\<open>type EvaluationStageKey = 'init' | 'stage1' | 'stage2' | 'result'\<close>\<close>

datatype EvaluationStageKey = Init | Stage1 | Stage2 | Result

fun key_name :: "EvaluationStageKey \<Rightarrow> string" where
  "key_name Init = ''init''"
| "key_name Stage1 = ''stage1''"
| "key_name Stage2 = ''stage2''"
| "key_name Result = ''result''"

definition defaultEvaluationParams :: obj where
  "defaultEvaluationParams =
     [(''stage1_answer_threshold'', JNum 60),
      (''stage1_reasoning_threshold'', JNum 60),
      (''stage2_answer_threshold'', JNum 60),
      (''stage2_reasoning_threshold'', JNum 60),
      (''evaluation_rounds'', JNum 1)]"

definition defaultQAParams :: obj where
  "defaultQAParams =
     [(''numPairs'', JNum 5),
      (''useSuggested'', JBool False),
      (''includeReason'', JBool True),
      (''minDensityScore'', JNum 5),
      (''minQualityScore'', JNum 5),
      (''skipExtract'', JBool False),
      (''skipEvaluate'', JBool False),
      (''skipQA'', JBool False),
      (''skipQAEvaluate'', JBool False),
      (''enableQAEvaluation'', JBool True),
      (''minFactualScore'', JNum 7),
      (''minOverallScore'', JNum 7),
      (''samplePercentage'', JNum 100)]"

text \<open>The labels of the four stages are Chinese text, given here by their UTF-8 bytes.\<close>

definition label_init :: string where
  "label_init = [CHR 0xE5, CHR 0x88, CHR 0x9D, CHR 0xE5, CHR 0xA7, CHR 0x8B, CHR 0xE5, CHR 0x8C, CHR 0x96]"

definition label_stage1 :: string where
  "label_stage1 =
     [CHR 0xE7, CHR 0xAC, CHR 0xAC, CHR 0xE4, CHR 0xB8, CHR 0x80, CHR 0xE9, CHR 0x98, CHR 0xB6,
      CHR 0xE6, CHR 0xAE, CHR 0xB5, CHR 0xE8, CHR 0xAF, CHR 0x84, CHR 0xE4, CHR 0xBC, CHR 0xB0]"

definition label_stage2 :: string where
  "label_stage2 =
     [CHR 0xE7, CHR 0xAC, CHR 0xAC, CHR 0xE4, CHR 0xBA, CHR 0x8C, CHR 0xE9, CHR 0x98, CHR 0xB6,
      CHR 0xE6, CHR 0xAE, CHR 0xB5, CHR 0xE8, CHR 0xAF, CHR 0x84, CHR 0xE4, CHR 0xBC, CHR 0xB0]"

definition label_result :: string where
  "label_result =
     [CHR 0xE7, CHR 0xBB, CHR 0x93, CHR 0xE6, CHR 0x9E, CHR 0x9C, CHR 0xE5, CHR 0xA4, CHR 0x84,
      CHR 0xE7, CHR 0x90, CHR 0x86]"

text \<open>
  One entry of \<^verbatim>\<open>createDefaultEvaluationStages()\<close>:
  \<^verbatim>\<open>{ key, label, progress: 0, status, enabled: true, message: null, updatedAt: undefined }\<close>.
\<close>

definition default_stage :: "string \<Rightarrow> string \<Rightarrow> string \<Rightarrow> jsval" where
  "default_stage k label st =
     JObj [(''key'', JStr k), (''label'', JStr label), (''progress'', JNum 0),
           (''status'', JStr st), (''enabled'', JBool True), (''message'', Null),
           (''updatedAt'', Undefined)]"

definition createDefaultEvaluationStages :: obj where
  "createDefaultEvaluationStages =
     [(''init'', default_stage ''init'' label_init ''active''),
      (''stage1'', default_stage ''stage1'' label_stage1 ''pending''),
      (''stage2'', default_stage ''stage2'' label_stage2 ''pending''),
      (''result'', default_stage ''result'' label_result ''pending'')]"

record WorkflowState =
  flmm :: obj
  qa :: obj
  evaluation :: obj

text \<open>
  The module-level constant \<^verbatim>\<open>defaultState\<close>, as the module initialises it:
  \<^verbatim>\<open>
  { flmm: { processCompleted: false },
    qa: { processCompleted: false, step: 0, params: { ...defaultQAParams } },
    evaluation: { workflowCompleted: false, stages: createDefaultEvaluationStages(),
                  params: { ...defaultEvaluationParams } } }
  \<close>
\<close>

definition defaultState :: WorkflowState where
  "defaultState =
     \<lparr>flmm = [(''processCompleted'', JBool False)],
      qa = [(''processCompleted'', JBool False), (''step'', JNum 0),
            (''params'', JObj (spread [] (JObj defaultQAParams)))],
      evaluation = [(''workflowCompleted'', JBool False),
                    (''stages'', JObj createDefaultEvaluationStages),
                    (''params'', JObj (spread [] (JObj defaultEvaluationParams)))]\<rparr>"

text \<open>The object \<^verbatim>\<open>this.state\<close> as a value, and the JSON text \<^verbatim>\<open>JSON.stringify\<close> makes of it.\<close>

definition state_value :: "WorkflowState \<Rightarrow> jsval" where
  "state_value s =
     JObj [(''flmm'', JObj (flmm s)), (''qa'', JObj (qa s)), (''evaluation'', JObj (evaluation s))]"

subsection \<open>Browser storage\<close>

text \<open>
  \<^verbatim>\<open>window.localStorage\<close> maps keys to strings. A stored string is the empty string, a
  text that \<^verbatim>\<open>JSON.parse\<close> rejects, or a JSON text, represented by the value it denotes.
  Reading and writing may throw (storage disabled, quota exceeded): \<open>readable\<close> and
  \<open>writable\<close> say whether they succeed.
\<close>

datatype stored_text = EmptyText | Malformed | Json jsval

record Storage =
  items :: "(string \<times> stored_text) list"
  readable :: bool
  writable :: bool

text \<open>\<open>None\<close>: the call throws. \<open>getItem\<close> of a key that is not stored is \<^verbatim>\<open>null\<close>.\<close>

definition getItem :: "Storage \<Rightarrow> string \<Rightarrow> stored_text option option" where
  "getItem stg k = (if readable stg then Some (map_of (items stg) k) else None)"

definition setItem :: "Storage \<Rightarrow> string \<Rightarrow> stored_text \<Rightarrow> Storage option" where
  "setItem stg k v =
     (if writable stg then Some (stg\<lparr>items := AList.update k v (items stg)\<rparr>) else None)"

definition JSON_stringify :: "jsval \<Rightarrow> stored_text" where
  "JSON_stringify v = Json (to_json v)"

subsection \<open>loadState\<close>

text \<open>
  The last \<^verbatim>\<open>return\<close> of \<^verbatim>\<open>loadState\<close>, reached when nothing is stored and after the
  \<^verbatim>\<open>catch\<close>; \<open>d\<close> is the current content of \<^verbatim>\<open>defaultState\<close>.
  \<^verbatim>\<open>
  return {
    flmm: { ...defaultState.flmm },
    qa: { ...defaultState.qa },
    evaluation: { workflowCompleted: false, evaluationId: undefined,
                  stages: createDefaultEvaluationStages(),
                  params: { ...defaultEvaluationParams } } }
  \<close>
\<close>

definition fallbackState :: "WorkflowState \<Rightarrow> WorkflowState" where
  "fallbackState d =
     \<lparr>flmm = spread [] (JObj (flmm d)),
      qa = spread [] (JObj (qa d)),
      evaluation = [(''workflowCompleted'', JBool False), (''evaluationId'', Undefined),
                    (''stages'', JObj createDefaultEvaluationStages),
                    (''params'', JObj (spread [] (JObj defaultEvaluationParams)))]\<rparr>"

text \<open>
  The object built from a parsed value that is neither \<^verbatim>\<open>null\<close> nor \<^verbatim>\<open>undefined\<close>:
  \<^verbatim>\<open>
  return {
    flmm: { ...defaultState.flmm, ...(parsed.flmm || {}) },
    qa: { ...defaultState.qa, ...(parsed.qa || {}),
          step: parsed.qa?.step ?? defaultState.qa.step,
          params: { ...defaultQAParams, ...(parsed.qa?.params || {}) } },
    evaluation: { ...defaultState.evaluation, ...(parsed.evaluation || {}),
                  stages: parsed.evaluation?.stages || createDefaultEvaluationStages(),
                  params: { ...defaultEvaluationParams, ...(parsed.evaluation?.params || {}) } } }
  \<close>
\<close>

definition mergedState :: "WorkflowState \<Rightarrow> jsval \<Rightarrow> WorkflowState" where
  "mergedState d parsed =
     (let pq = get_member parsed ''qa''; pe = get_member parsed ''evaluation'' in
      \<lparr>flmm = spread (spread [] (JObj (flmm d))) (or_else (get_member parsed ''flmm'') (JObj [])),
       qa =
         AList.update ''params''
           (JObj (spread (spread [] (JObj defaultQAParams)) (or_else (opt_member pq ''params'') (JObj []))))
           (AList.update ''step''
              (coalesce (opt_member pq ''step'') (get_member (JObj (qa d)) ''step''))
              (spread (spread [] (JObj (qa d))) (or_else pq (JObj [])))),
       evaluation =
         AList.update ''params''
           (JObj (spread (spread [] (JObj defaultEvaluationParams))
                    (or_else (opt_member pe ''params'') (JObj []))))
           (AList.update ''stages''
              (or_else (opt_member pe ''stages'') (JObj createDefaultEvaluationStages))
              (spread (spread [] (JObj (evaluation d))) (or_else pe (JObj []))))\<rparr>)"

text \<open>
  \<^verbatim>\<open>
  private loadState(): WorkflowState {
    if (!this.hasStorage) return { ...defaultState }
    try {
      const saved = window.localStorage.getItem(STORAGE_KEY)
      if (saved) {
        const parsed = JSON.parse(saved)
        return { ... }
      }
    } catch (e) { console.error('Failed to load workflow state:', e) }
    return { ... }
  }
  \<close>
  Without storage the result has the very section objects of \<^verbatim>\<open>defaultState\<close>. With
  storage, \<^verbatim>\<open>getItem\<close> may throw; \<^verbatim>\<open>null\<close> and the empty string are falsy;
  \<^verbatim>\<open>JSON.parse\<close> may throw; and reading \<^verbatim>\<open>parsed.flmm\<close> throws when \<^verbatim>\<open>parsed\<close> is
  \<^verbatim>\<open>null\<close>. Each throw is caught and leads to the last \<^verbatim>\<open>return\<close>.
\<close>

definition loadState :: "WorkflowState \<Rightarrow> bool \<Rightarrow> Storage \<Rightarrow> WorkflowState" where
  "loadState d hasStorage stg =
     (if \<not> hasStorage then d
      else case getItem stg STORAGE_KEY of
        None \<Rightarrow> fallbackState d
      | Some None \<Rightarrow> fallbackState d
      | Some (Some EmptyText) \<Rightarrow> fallbackState d
      | Some (Some Malformed) \<Rightarrow> fallbackState d
      | Some (Some (Json parsed)) \<Rightarrow>
          if nullish parsed then fallbackState d else mergedState d parsed)"

subsection \<open>The store object\<close>

text \<open>
  Objects are shared by reference. Without storage \<^verbatim>\<open>loadState\<close> returns
  \<^verbatim>\<open>{ ...defaultState }\<close>, whose sections are the section objects of \<^verbatim>\<open>defaultState\<close>
  themselves: a write into such a section writes into \<^verbatim>\<open>defaultState\<close> too, until the
  store replaces the section by a new object. The store therefore carries the current
  content of \<^verbatim>\<open>defaultState\<close> and, per section, whether \<^verbatim>\<open>this.state\<close> still shares it.
  \<open>notified\<close> lists the states handed to the listeners, one per \<^verbatim>\<open>notify()\<close>.
\<close>

record WorkflowStore =
  state :: WorkflowState
  module_defaults :: WorkflowState
  shares_flmm :: bool
  shares_qa :: bool
  shares_evaluation :: bool
  hasStorage :: bool
  localStorage :: Storage
  notified :: "WorkflowState list"

text \<open>\<^verbatim>\<open>constructor() { this.state = this.loadState() }\<close>, run once when the module loads.\<close>

definition new_WorkflowStore :: "bool \<Rightarrow> Storage \<Rightarrow> WorkflowStore" where
  "new_WorkflowStore hs stg =
     \<lparr>state = loadState defaultState hs stg,
      module_defaults = defaultState,
      shares_flmm = (\<not> hs), shares_qa = (\<not> hs), shares_evaluation = (\<not> hs),
      hasStorage = hs, localStorage = stg, notified = []\<rparr>"

text \<open>
  A write into the object \<^verbatim>\<open>this.state.flmm\<close> (and likewise for the other sections).
  While the section is shared, \<^verbatim>\<open>defaultState.flmm\<close> is that same object.
\<close>

definition modify_flmm :: "(obj \<Rightarrow> obj) \<Rightarrow> WorkflowStore \<Rightarrow> WorkflowStore" where
  "modify_flmm f st =
     st\<lparr>state := (state st)\<lparr>flmm := f (flmm (state st))\<rparr>,
        module_defaults :=
          (if shares_flmm st then (module_defaults st)\<lparr>flmm := f (flmm (state st))\<rparr>
           else module_defaults st)\<rparr>"

definition modify_qa :: "(obj \<Rightarrow> obj) \<Rightarrow> WorkflowStore \<Rightarrow> WorkflowStore" where
  "modify_qa f st =
     st\<lparr>state := (state st)\<lparr>qa := f (qa (state st))\<rparr>,
        module_defaults :=
          (if shares_qa st then (module_defaults st)\<lparr>qa := f (qa (state st))\<rparr>
           else module_defaults st)\<rparr>"

definition modify_evaluation :: "(obj \<Rightarrow> obj) \<Rightarrow> WorkflowStore \<Rightarrow> WorkflowStore" where
  "modify_evaluation f st =
     st\<lparr>state := (state st)\<lparr>evaluation := f (evaluation (state st))\<rparr>,
        module_defaults :=
          (if shares_evaluation st
           then (module_defaults st)\<lparr>evaluation := f (evaluation (state st))\<rparr>
           else module_defaults st)\<rparr>"

text \<open>The assignment \<^verbatim>\<open>this.state.flmm = { ... }\<close> of a new object.\<close>

definition replace_flmm :: "obj \<Rightarrow> WorkflowStore \<Rightarrow> WorkflowStore" where
  "replace_flmm v st = st\<lparr>state := (state st)\<lparr>flmm := v\<rparr>, shares_flmm := False\<rparr>"

definition replace_qa :: "obj \<Rightarrow> WorkflowStore \<Rightarrow> WorkflowStore" where
  "replace_qa v st = st\<lparr>state := (state st)\<lparr>qa := v\<rparr>, shares_qa := False\<rparr>"

definition replace_evaluation :: "obj \<Rightarrow> WorkflowStore \<Rightarrow> WorkflowStore" where
  "replace_evaluation v st =
     st\<lparr>state := (state st)\<lparr>evaluation := v\<rparr>, shares_evaluation := False\<rparr>"

text \<open>\<^verbatim>\<open>this.listeners.forEach(listener => listener(this.getState()))\<close>\<close>

definition notify :: "WorkflowStore \<Rightarrow> WorkflowStore" where
  "notify st = st\<lparr>notified := notified st @ [state st]\<rparr>"

text \<open>
  \<^verbatim>\<open>
  private saveState(): void {
    try {
      if (this.hasStorage) {
        window.localStorage.setItem(STORAGE_KEY, JSON.stringify(this.state))
      }
      this.notify()
    } catch (e) { console.error('Failed to save workflow state:', e) }
  }
  \<close>
\<close>

definition saveState :: "WorkflowStore \<Rightarrow> WorkflowStore" where
  "saveState st =
     (if hasStorage st
      then (case setItem (localStorage st) STORAGE_KEY (JSON_stringify (state_value (state st))) of
              None \<Rightarrow> st
            | Some stg \<Rightarrow> notify (st\<lparr>localStorage := stg\<rparr>))
      else notify st)"

subsection \<open>The operations\<close>

text \<open>
  An argument of type \<^verbatim>\<open>Partial<...>\<close> is an object whose members are primitive values
  (numbers, booleans, strings, \<^verbatim>\<open>null\<close>; a member may also be there and \<^verbatim>\<open>undefined\<close>).
\<close>

type_synonym partial = "(string \<times> prim) list"

text \<open>Its numbers are finite.\<close>

fun finite_prim :: "prim \<Rightarrow> bool" where
  "finite_prim (PNonFinite n) = False"
| "finite_prim p = True"

definition finite_partial :: "partial \<Rightarrow> bool" where
  "finite_partial ps = list_all (\<lambda>kv. finite_prim (snd kv)) ps"

definition partial_obj :: "partial \<Rightarrow> jsval" where
  "partial_obj p = JObj (map (\<lambda>kv. (fst kv, lit (snd kv))) p)"

definition setFLMMProcessCompleted :: "string option \<Rightarrow> WorkflowStore \<Rightarrow> WorkflowStore" where
  "setFLMMProcessCompleted projectId st =
     saveState
       (modify_flmm (\<lambda>f. AList.update ''projectId'' (opt_str projectId)
                           (AList.update ''processCompleted'' (JBool True) f)) st)"

definition canAccessFLMMAnalysis :: "WorkflowStore \<Rightarrow> jsval" where
  "canAccessFLMMAnalysis st = get_member (JObj (flmm (state st))) ''processCompleted''"

definition resetFLMM :: "WorkflowStore \<Rightarrow> WorkflowStore" where
  "resetFLMM st = saveState (replace_flmm [(''processCompleted'', JBool False)] st)"

definition setQAProcessCompleted :: "string option \<Rightarrow> WorkflowStore \<Rightarrow> WorkflowStore" where
  "setQAProcessCompleted taskId st =
     saveState
       (modify_qa (\<lambda>q. AList.update ''taskId'' (opt_str taskId)
                         (AList.update ''processCompleted'' (JBool True) q)) st)"

definition setQAGenerateTaskId :: "string \<Rightarrow> WorkflowStore \<Rightarrow> WorkflowStore" where
  "setQAGenerateTaskId taskId st =
     saveState (modify_qa (AList.update ''generateTaskId'' (JStr taskId)) st)"

definition setQAEvaluateTaskId :: "string \<Rightarrow> WorkflowStore \<Rightarrow> WorkflowStore" where
  "setQAEvaluateTaskId taskId st =
     saveState (modify_qa (AList.update ''evaluateTaskId'' (JStr taskId)) st)"

definition setQAStep :: "number \<Rightarrow> WorkflowStore \<Rightarrow> WorkflowStore" where
  "setQAStep step st = saveState (modify_qa (AList.update ''step'' (number_val step)) st)"

text \<open>\<^verbatim>\<open>this.state.qa.params = { ...this.state.qa.params, ...params }\<close>\<close>

definition saveQAParams :: "partial \<Rightarrow> WorkflowStore \<Rightarrow> WorkflowStore" where
  "saveQAParams params st =
     saveState
       (modify_qa
          (\<lambda>q. AList.update ''params''
                 (JObj (spread (spread [] (get_member (JObj q) ''params'')) (partial_obj params))) q)
          st)"

definition canAccessQAAnalysis :: "WorkflowStore \<Rightarrow> jsval" where
  "canAccessQAAnalysis st = get_member (JObj (qa (state st))) ''processCompleted''"

text \<open>
  \<^verbatim>\<open>this.state.qa = { processCompleted: false, step: undefined, params: { ...defaultQAParams } }\<close>
\<close>

definition resetQA :: "WorkflowStore \<Rightarrow> WorkflowStore" where
  "resetQA st =
     saveState
       (replace_qa [(''processCompleted'', JBool False), (''step'', Undefined),
                    (''params'', JObj (spread [] (JObj defaultQAParams)))] st)"

definition setEvaluationWorkflowCompleted :: "string option \<Rightarrow> WorkflowStore \<Rightarrow> WorkflowStore" where
  "setEvaluationWorkflowCompleted evaluationId st =
     saveState
       (modify_evaluation (\<lambda>e. AList.update ''evaluationId'' (opt_str evaluationId)
                                 (AList.update ''workflowCompleted'' (JBool True) e)) st)"

definition canAccessEvaluationAnalysis :: "WorkflowStore \<Rightarrow> jsval" where
  "canAccessEvaluationAnalysis st = get_member (JObj (evaluation (state st))) ''workflowCompleted''"

definition fresh_evaluation :: obj where
  "fresh_evaluation =
     [(''workflowCompleted'', JBool False), (''evaluationId'', Undefined),
      (''stages'', JObj createDefaultEvaluationStages),
      (''params'', JObj (spread [] (JObj defaultEvaluationParams)))]"

definition resetEvaluation :: "WorkflowStore \<Rightarrow> WorkflowStore" where
  "resetEvaluation st = saveState (replace_evaluation fresh_evaluation st)"

definition saveEvaluationParams :: "partial \<Rightarrow> WorkflowStore \<Rightarrow> WorkflowStore" where
  "saveEvaluationParams params st =
     saveState
       (modify_evaluation
          (\<lambda>e. AList.update ''params''
                 (JObj (spread (spread [] (get_member (JObj e) ''params'')) (partial_obj params))) e)
          st)"

text \<open>
  \<^verbatim>\<open>
  private ensureEvaluationStages() {
    if (!this.state.evaluation.stages) {
      this.state.evaluation.stages = createDefaultEvaluationStages()
    }
    return this.state.evaluation.stages
  }
  \<close>
\<close>

definition ensureEvaluationStages :: "WorkflowStore \<Rightarrow> WorkflowStore" where
  "ensureEvaluationStages st =
     modify_evaluation
       (\<lambda>e. if truthy (get_member (JObj e) ''stages'') then e
             else AList.update ''stages'' (JObj createDefaultEvaluationStages) e) st"

definition current_stages :: "WorkflowStore \<Rightarrow> jsval" where
  "current_stages st = get_member (JObj (evaluation (state st))) ''stages''"

text \<open>
  \<^verbatim>\<open>
  updateEvaluationStage(stageKey: EvaluationStageKey, snapshot: Partial<WorkflowStageSnapshot>) {
    const stages = this.ensureEvaluationStages()
    const base = stages[stageKey] || createDefaultEvaluationStages()[stageKey]
    stages[stageKey] = { ...base, ...snapshot }
    this.state.evaluation.stages = { ...stages }
    this.saveState()
  }
  \<close>
  The module is strict code: the assignment \<^verbatim>\<open>stages[stageKey] = ...\<close> throws a TypeError
  when \<^verbatim>\<open>stages\<close> is a primitive value (a truthy one, after \<^verbatim>\<open>ensureEvaluationStages\<close>).
  The result is then \<open>None\<close>; nothing has been written before the throw.
\<close>

definition updateEvaluationStage ::
  "EvaluationStageKey \<Rightarrow> partial \<Rightarrow> WorkflowStore \<Rightarrow> WorkflowStore option" where
  "updateEvaluationStage stageKey snapshot st =
     (let st1 = ensureEvaluationStages st; stages = current_stages st1 in
      case stages of
        JObj sobj \<Rightarrow>
          (let base = or_else (get_member stages (key_name stageKey))
                        (get_member (JObj createDefaultEvaluationStages) (key_name stageKey));
               sobj' = AList.update (key_name stageKey)
                         (JObj (spread (spread [] base) (partial_obj snapshot))) sobj
           in Some (saveState
                (modify_evaluation (AList.update ''stages'' (JObj (spread [] (JObj sobj')))) st1)))
      | _ \<Rightarrow> None)"

definition validKeys :: "string list" where
  "validKeys = [''init'', ''stage1'', ''stage2'', ''result'']"

text \<open>
  The loop of \<^verbatim>\<open>bulkUpdateEvaluationStages\<close> over \<^verbatim>\<open>Object.entries(stageMap)\<close>, on the
  object \<^verbatim>\<open>stages\<close>:
  \<^verbatim>\<open>
  if (!validKeys.includes(key as EvaluationStageKey)) { return }
  const typedKey = key as EvaluationStageKey
  if (!stages[typedKey]) { stages[typedKey] = createDefaultEvaluationStages()[typedKey] }
  const current = stages[typedKey]
  stages[typedKey] = { ...current, ...snapshot }
  \<close>
  \<open>None\<close>: an assignment into a primitive \<^verbatim>\<open>stages\<close> throws.
\<close>

fun bulk_entries :: "(string \<times> partial) list \<Rightarrow> jsval \<Rightarrow> jsval option" where
  "bulk_entries [] stages = Some stages"
| "bulk_entries ((key, snapshot) # rest) stages =
     (if key \<notin> set validKeys then bulk_entries rest stages
      else case stages of
        JObj sobj \<Rightarrow>
          (let sobj1 = (if \<not> truthy (get_member stages key)
                        then AList.update key (get_member (JObj createDefaultEvaluationStages) key) sobj
                        else sobj);
               current = get_member (JObj sobj1) key
           in bulk_entries rest
                (JObj (AList.update key (JObj (spread (spread [] current) (partial_obj snapshot))) sobj1)))
      | _ \<Rightarrow> None)"

text \<open>
  \<^verbatim>\<open>
  bulkUpdateEvaluationStages(stageMap: Record<string, Partial<WorkflowStageSnapshot>>) {
    const stages = this.ensureEvaluationStages()
    const validKeys: EvaluationStageKey[] = ['init', 'stage1', 'stage2', 'result']
    Object.entries(stageMap).forEach(([key, snapshot]) => { ... })
    this.state.evaluation.stages = { ...stages }
    this.saveState()
  }
  \<close>
  The argument \<^verbatim>\<open>stageMap\<close> is \<open>smap\<close> here, the list of its entries.
\<close>

definition bulkUpdateEvaluationStages ::
  "(string \<times> partial) list \<Rightarrow> WorkflowStore \<Rightarrow> WorkflowStore option" where
  "bulkUpdateEvaluationStages smap st =
     (let st1 = ensureEvaluationStages st in
      case bulk_entries smap (current_stages st1) of
        None \<Rightarrow> None
      | Some stages \<Rightarrow>
          Some (saveState (modify_evaluation (AList.update ''stages'' (JObj (spread [] stages))) st1)))"

definition resetEvaluationStages :: "WorkflowStore \<Rightarrow> WorkflowStore" where
  "resetEvaluationStages st =
     saveState (modify_evaluation (AList.update ''stages'' (JObj createDefaultEvaluationStages)) st)"

text \<open>
  \<^verbatim>\<open>
  resetAll(): void {
    this.state = {
      flmm: { ...defaultState.flmm },
      qa: { ...defaultState.qa },
      evaluation: { workflowCompleted: false, evaluationId: undefined,
                    stages: createDefaultEvaluationStages(),
                    params: { ...defaultEvaluationParams } } }
    this.saveState()
  }
  \<close>
\<close>

definition resetAll :: "WorkflowStore \<Rightarrow> WorkflowStore" where
  "resetAll st =
     saveState
       (st\<lparr>state := fallbackState (module_defaults st),
           shares_flmm := False, shares_qa := False, shares_evaluation := False\<rparr>)"

text \<open>The public mutating methods as a datatype, and a call of one on the store.\<close>

datatype store_op =
    SetFLMMProcessCompleted "string option"
  | ResetFLMM
  | SetQAProcessCompleted "string option"
  | SetQAGenerateTaskId string
  | SetQAEvaluateTaskId string
  | SetQAStep number
  | SaveQAParams partial
  | ResetQA
  | SetEvaluationWorkflowCompleted "string option"
  | ResetEvaluation
  | SaveEvaluationParams partial
  | UpdateEvaluationStage EvaluationStageKey partial
  | BulkUpdateEvaluationStages "(string \<times> partial) list"
  | ResetEvaluationStages
  | ResetAll

fun call :: "store_op \<Rightarrow> WorkflowStore \<Rightarrow> WorkflowStore option" where
  "call (SetFLMMProcessCompleted projectId) st = Some (setFLMMProcessCompleted projectId st)"
| "call ResetFLMM st = Some (resetFLMM st)"
| "call (SetQAProcessCompleted taskId) st = Some (setQAProcessCompleted taskId st)"
| "call (SetQAGenerateTaskId taskId) st = Some (setQAGenerateTaskId taskId st)"
| "call (SetQAEvaluateTaskId taskId) st = Some (setQAEvaluateTaskId taskId st)"
| "call (SetQAStep step) st = Some (setQAStep step st)"
| "call (SaveQAParams params) st = Some (saveQAParams params st)"
| "call ResetQA st = Some (resetQA st)"
| "call (SetEvaluationWorkflowCompleted evaluationId) st =
     Some (setEvaluationWorkflowCompleted evaluationId st)"
| "call ResetEvaluation st = Some (resetEvaluation st)"
| "call (SaveEvaluationParams params) st = Some (saveEvaluationParams params st)"
| "call (UpdateEvaluationStage stageKey snapshot) st = updateEvaluationStage stageKey snapshot st"
| "call (BulkUpdateEvaluationStages smap) st = bulkUpdateEvaluationStages smap st"
| "call ResetEvaluationStages st = Some (resetEvaluationStages st)"
| "call ResetAll st = Some (resetAll st)"

text \<open>The numbers in the arguments of a call are finite.\<close>

fun finite_op :: "store_op \<Rightarrow> bool" where
  "finite_op (SetQAStep step) = (case step of Number r \<Rightarrow> True | NonFinite n \<Rightarrow> False)"
| "finite_op (SaveQAParams params) = finite_partial params"
| "finite_op (SaveEvaluationParams params) = finite_partial params"
| "finite_op (UpdateEvaluationStage stageKey snapshot) = finite_partial snapshot"
| "finite_op (BulkUpdateEvaluationStages smap) = list_all (\<lambda>e. finite_partial (snd e)) smap"
| "finite_op c = True"

text \<open>
  A sequence of calls. A call that throws leaves the store as it was, and the next call
  goes on from there.
\<close>

fun run :: "store_op list \<Rightarrow> WorkflowStore \<Rightarrow> WorkflowStore" where
  "run [] st = st"
| "run (c # cs) st = run cs (case call c st of Some st' \<Rightarrow> st' | None \<Rightarrow> st)"

text \<open>
  A reload of the page: the module is loaded again, \<^verbatim>\<open>defaultState\<close> is built afresh and
  a new store is constructed over what the browser storage holds now.
\<close>

definition reload :: "WorkflowStore \<Rightarrow> WorkflowStore" where
  "reload st = new_WorkflowStore (hasStorage st) (localStorage st)"

text \<open>The keys of \<^verbatim>\<open>this.state.evaluation.stages\<close>, in the order of the object.\<close>

definition stage_keys :: "WorkflowStore \<Rightarrow> string list" where
  "stage_keys st = map fst (own_entries (current_stages st))"

text \<open>
  A session of the application: calls of the store's methods, and reloads of the page.
\<close>

datatype session_event = Call store_op | Reload

fun finite_event :: "session_event \<Rightarrow> bool" where
  "finite_event (Call c) = finite_op c"
| "finite_event Reload = True"

fun run_session :: "session_event list \<Rightarrow> WorkflowStore \<Rightarrow> WorkflowStore" where
  "run_session [] st = st"
| "run_session (Call c # es) st =
     run_session es (case call c st of Some st' \<Rightarrow> st' | None \<Rightarrow> st)"
| "run_session (Reload # es) st = run_session es (reload st)"

subsection \<open>Equivalence of a reloaded state\<close>

text \<open>
  Member \<open>k\<close> of a reloaded object \<open>r\<close> is the member of the saved object \<open>s\<close>, or the
  member of the default \<open>d\<close> where \<open>s\<close> has none.
\<close>

definition fills :: "obj \<Rightarrow> jsval \<Rightarrow> jsval \<Rightarrow> string \<Rightarrow> bool" where
  "fills d s r k =
     (get_member r k = (if get_member s k = Undefined then get_member (JObj d) k else get_member s k))"

text \<open>
  A reloaded state \<open>r\<close> is equivalent to the saved state \<open>s\<close> up to the filling in of
  defaults: each member of a section, of \<^verbatim>\<open>qa.params\<close> and of \<^verbatim>\<open>evaluation.params\<close> is
  the saved one or, where none was saved, the one of \<^verbatim>\<open>defaultState\<close>,
  \<^verbatim>\<open>defaultQAParams\<close> and \<^verbatim>\<open>defaultEvaluationParams\<close>; the stages are the saved stages,
  member by member.
\<close>

definition reload_equiv :: "WorkflowState \<Rightarrow> WorkflowState \<Rightarrow> bool" where
  "reload_equiv s r =
     ((\<forall>k. fills (flmm defaultState) (JObj (flmm s)) (JObj (flmm r)) k)
    \<and> (\<forall>k. k \<noteq> ''params'' \<longrightarrow> fills (qa defaultState) (JObj (qa s)) (JObj (qa r)) k)
    \<and> (\<forall>k. fills defaultQAParams (get_member (JObj (qa s)) ''params'')
              (get_member (JObj (qa r)) ''params'') k)
    \<and> (\<forall>k. k \<noteq> ''params'' \<and> k \<noteq> ''stages'' \<longrightarrow>
              fills (evaluation defaultState) (JObj (evaluation s)) (JObj (evaluation r)) k)
    \<and> (\<forall>k. fills defaultEvaluationParams (get_member (JObj (evaluation s)) ''params'')
              (get_member (JObj (evaluation r)) ''params'') k)
    \<and> (\<forall>sk f. get_member (get_member (get_member (JObj (evaluation r)) ''stages'') sk) f
              = get_member (get_member (get_member (JObj (evaluation s)) ''stages'') sk) f))"

subsection \<open>Invariants of the store\<close>

text \<open>The properties of an object that \<open>to_json\<close> keeps.\<close>

definition json_entries :: "obj \<Rightarrow> obj" where
  "json_entries kvs =
     filter (\<lambda>kv. snd kv \<noteq> Undefined) (map (\<lambda>kv. (fst kv, to_json (snd kv))) kvs)"

text \<open>
  The primitive values that a JSON text keeps as they are (\<^verbatim>\<open>undefined\<close> among them, as
  its property is left out and is \<^verbatim>\<open>undefined\<close> when read): all but \<^verbatim>\<open>NaN\<close> and the
  infinities. An object whose keys are distinct and whose members are such values.
\<close>

fun json_prim :: "jsval \<Rightarrow> bool" where
  "json_prim (JObj kvs) = False"
| "json_prim (JNonFinite n) = False"
| "json_prim v = True"

definition flat :: "obj \<Rightarrow> bool" where
  "flat kvs = (distinct (map fst kvs) \<and> (\<forall>v\<in>snd ` set kvs. json_prim v))"

text \<open>
  The shape of the state of a store that started with nothing saved: the members of the
  sections are primitive values, but for \<^verbatim>\<open>params\<close> and \<^verbatim>\<open>stages\<close>, which are objects of
  primitive values and of stage snapshots; \<^verbatim>\<open>qa.step\<close> is a number or \<^verbatim>\<open>undefined\<close>.
\<close>

definition shape_qa :: "obj \<Rightarrow> bool" where
  "shape_qa q =
     (distinct (map fst q)
    \<and> (\<forall>kv\<in>set q. fst kv \<noteq> ''params'' \<longrightarrow> json_prim (snd kv))
    \<and> (''step'', Null) \<notin> set q
    \<and> (\<exists>p. map_of q ''params'' = Some (JObj p) \<and> flat p))"

definition shape_stages :: "obj \<Rightarrow> bool" where
  "shape_stages sobj =
     (distinct (map fst sobj) \<and> (\<forall>v\<in>snd ` set sobj. \<exists>fs. v = JObj fs \<and> flat fs))"

definition shape_evaluation :: "obj \<Rightarrow> bool" where
  "shape_evaluation e =
     (distinct (map fst e)
    \<and> (\<forall>kv\<in>set e. fst kv \<noteq> ''params'' \<and> fst kv \<noteq> ''stages'' \<longrightarrow> json_prim (snd kv))
    \<and> (\<exists>p. map_of e ''params'' = Some (JObj p) \<and> flat p)
    \<and> (\<exists>sobj. map_of e ''stages'' = Some (JObj sobj) \<and> shape_stages sobj))"

definition shape :: "WorkflowState \<Rightarrow> bool" where
  "shape s = (flat (flmm s) \<and> shape_qa (qa s) \<and> shape_evaluation (evaluation s))"

text \<open>What the storage holds under the key, if anything, was saved from a state of that shape.\<close>

definition stored_ok :: "Storage \<Rightarrow> bool" where
  "stored_ok stg =
     (case map_of (items stg) STORAGE_KEY of
        None \<Rightarrow> True
      | Some b \<Rightarrow> \<exists>s. shape s \<and> b = JSON_stringify (state_value s))"

definition store_inv :: "WorkflowStore \<Rightarrow> bool" where
  "store_inv st =
     (hasStorage st \<and> \<not> shares_flmm st \<and> \<not> shares_qa st \<and> \<not> shares_evaluation st
    \<and> module_defaults st = defaultState \<and> shape (state st) \<and> stored_ok (localStorage st))"

text \<open>The stages object has the four keys, in the order of the default.\<close>

definition keys_ok :: "WorkflowStore \<Rightarrow> bool" where
  "keys_ok st = (\<exists>sobj. current_stages st = JObj sobj \<and> map fst sobj = validKeys)"







section \<open>The workflow guard and the analysis views\<close>

text \<open>
  \<^verbatim>\<open>hooks/useWorkflowGuard.ts\<close>. The hook keeps two refs: \<^verbatim>\<open>hasShownModal\<close> and the modal
  it has opened. Its effect, run when the view is mounted:
  \<^verbatim>\<open>
  useEffect(() => {
    if (hasShownModal.current) { return }
    if (!canAccess()) {
      hasShownModal.current = true
      modalInstance.current = Modal.warning({
        title, content, okText: redirectLabel,
        onOk: () => { navigate(redirectPath) },
        onCancel: () => { navigate(redirectPath) },
      })
    }
    return () => { if (modalInstance.current) { modalInstance.current.destroy() } }
  }, [canAccess, title, content, redirectPath, redirectLabel, navigate])
  \<close>
  Of the options, \<^verbatim>\<open>title\<close>, \<^verbatim>\<open>content\<close> and \<^verbatim>\<open>redirectLabel\<close> are texts shown in the modal;
  the model keeps the predicate and the path. \<open>modal\<close> is the warning that is open, given
  by the path its two buttons navigate to.
\<close>

record GuardOptions =
  canAccess :: "WorkflowStore \<Rightarrow> jsval"
  redirectPath :: string

record Guard =
  hasShownModal :: bool
  modal :: "string option"

definition new_Guard :: Guard where
  "new_Guard = \<lparr>hasShownModal = False, modal = None\<rparr>"

definition guard_effect :: "GuardOptions \<Rightarrow> WorkflowStore \<Rightarrow> Guard \<Rightarrow> Guard" where
  "guard_effect opts st g =
     (if hasShownModal g then g
      else if \<not> truthy (canAccess opts st)
           then g\<lparr>hasShownModal := True, modal := Some (redirectPath opts)\<rparr>
           else g)"

text \<open>The cleanup of the effect: \<^verbatim>\<open>modalInstance.current.destroy()\<close>.\<close>

definition guard_cleanup :: "Guard \<Rightarrow> Guard" where
  "guard_cleanup g = g\<lparr>modal := None\<rparr>"

text \<open>
  A press of a button of the modal, \<^verbatim>\<open>onOk\<close> or \<^verbatim>\<open>onCancel\<close>: the modal closes and the
  router is sent to the path. The result is the guard and the new location, if any.
\<close>

definition press_modal :: "Guard \<Rightarrow> Guard \<times> string option" where
  "press_modal g = (g\<lparr>modal := None\<rparr>, modal g)"

text \<open>
  The analysis views of the three modules and their routes (\<^verbatim>\<open>App.tsx\<close>):
  \<^verbatim>\<open>
  <Route path="/flmm/analysis" element={<FLMMAnalysis />} />
  <Route path="/qa/results" element={<QAAnalysis />} />
  <Route path="/qa/analysis" element={<QAAnalysis />} />
  <Route path="/eval/analysis" element={<EvaluationAnalysis />} />
  \<close>
  \<^verbatim>\<open>FLMMAnalysis\<close> is \<^verbatim>\<open>pages/FLMM/Analysis.tsx\<close>, \<^verbatim>\<open>QAAnalysis\<close> is the component
  \<^verbatim>\<open>QAResults\<close> of \<^verbatim>\<open>pages/QA/Results.tsx\<close>, \<^verbatim>\<open>EvaluationAnalysis\<close> is the component
  \<^verbatim>\<open>EvalAnalysis\<close> of \<^verbatim>\<open>pages/Evaluation/Analysis.tsx\<close>.
\<close>

datatype analysis_view = FLMMAnalysis | QAResults | EvalAnalysis

definition routes :: "string list" where
  "routes =
     [''/'', ''/flmm/create'', ''/flmm/projects'', ''/flmm/analysis'', ''/flmm/questionnaire'',
      ''/qa/process'', ''/qa/status/:taskId/:taskType'', ''/qa/results'', ''/qa/analysis'',
      ''/eval/workflow'', ''/eval/analysis'']"

definition analysis_route :: "string \<Rightarrow> analysis_view option" where
  "analysis_route path =
     map_of [(''/flmm/analysis'', FLMMAnalysis), (''/qa/results'', QAResults),
             (''/qa/analysis'', QAResults), (''/eval/analysis'', EvalAnalysis)] path"

text \<open>
  The guard a view installs. Only \<^verbatim>\<open>EvalAnalysis\<close> calls the hook:
  \<^verbatim>\<open>
  const { canAccessEvaluationAnalysis, resetEvaluation } = useWorkflow()
  useWorkflowGuard({
    canAccess: canAccessEvaluationAnalysis,
    title: ..., content: ...,
    redirectPath: '/eval/process',
    redirectLabel: ...,
  })
  \<close>
  \<^verbatim>\<open>FLMMAnalysis\<close> and \<^verbatim>\<open>QAResults\<close> neither call the hook nor read the store.
\<close>

definition view_guard :: "analysis_view \<Rightarrow> GuardOptions option" where
  "view_guard v =
     (case v of
        FLMMAnalysis \<Rightarrow> None
      | QAResults \<Rightarrow> None
      | EvalAnalysis \<Rightarrow>
          Some \<lparr>canAccess = canAccessEvaluationAnalysis, redirectPath = ''/eval/process''\<rparr>)"

text \<open>The refs of the guard after the view has been mounted over the store \<open>st\<close>.\<close>

definition mount_view :: "analysis_view \<Rightarrow> WorkflowStore \<Rightarrow> Guard" where
  "mount_view v st =
     (case view_guard v of None \<Rightarrow> new_Guard | Some opts \<Rightarrow> guard_effect opts st new_Guard)"

text \<open>The view is blocked: the warning is open over it.\<close>

definition blocked :: "Guard \<Rightarrow> bool" where
  "blocked g = (modal g \<noteq> None)"

text \<open>The completion flag of the module a view belongs to.\<close>

definition completion_flag :: "analysis_view \<Rightarrow> WorkflowStore \<Rightarrow> jsval" where
  "completion_flag v st =
     (case v of
        FLMMAnalysis \<Rightarrow> get_member (JObj (flmm (state st))) ''processCompleted''
      | QAResults \<Rightarrow> get_member (JObj (qa (state st))) ''processCompleted''
      | EvalAnalysis \<Rightarrow> get_member (JObj (evaluation (state st))) ''workflowCompleted'')"


section \<open>The QA status page: the progress event stream\<close>

text \<open>
  \<^verbatim>\<open>pages/QA/Status.tsx\<close>. The page opens an \<^verbatim>\<open>EventSource\<close> on the progress stream of
  its task and registers handlers for the events \<^verbatim>\<open>progress\<close>, \<^verbatim>\<open>log\<close>, \<^verbatim>\<open>complete\<close> and
  \<^verbatim>\<open>error\<close>. The data of an event is a text; each handler gives it to \<^verbatim>\<open>JSON.parse\<close>,
  which throws or returns a value. A connection error is an \<^verbatim>\<open>error\<close> event without
  data.
\<close>

datatype event_data = Unparseable | Parsed jsval

datatype stream_event =
    ProgressEvent event_data
  | LogEvent event_data
  | CompleteEvent event_data
  | ErrorEvent "event_data option"
  | OtherEvent string event_data

text \<open>\<^verbatim>\<open>message.success\<close> and \<^verbatim>\<open>message.error\<close>: the notices shown to the user.\<close>

datatype notice = SuccessNotice | ErrorNotice

datatype connection = Open | Closed

text \<open>
  The state of the page: its React state \<^verbatim>\<open>progressData\<close>, \<^verbatim>\<open>logs\<close>, \<^verbatim>\<open>summary\<close>,
  \<^verbatim>\<open>isProcessing\<close>; the ref \<^verbatim>\<open>eventSourceRef\<close> (\<open>None\<close> is \<^verbatim>\<open>null\<close>) with the ready state of
  the \<^verbatim>\<open>EventSource\<close> it holds; the notices shown; and \<open>connections\<close>, the task ids for
  which the page has opened a stream, each a GET request of
  \<^verbatim>\<open>{apiBase}/qa/progress/{taskId}\<close>. These are the HTTP requests of the effect.
\<close>

record QAStatus =
  progressData :: jsval
  logs :: "jsval list"
  summary :: jsval
  isProcessing :: bool
  eventSourceRef :: "connection option"
  notices :: "notice list"
  connections :: "string list"

text \<open>The state as \<^verbatim>\<open>useState\<close> and \<^verbatim>\<open>useRef\<close> initialise it.\<close>

definition new_QAStatus :: QAStatus where
  "new_QAStatus =
     \<lparr>progressData = Null, logs = [], summary = Null, isProcessing = True,
      eventSourceRef = None, notices = [], connections = []\<rparr>"

text \<open>
  The body of the effect, with the route parameter \<^verbatim>\<open>taskId\<close> (\<open>None\<close>: \<^verbatim>\<open>undefined\<close>):
  \<^verbatim>\<open>
  if (!taskId) return
  const url = `${apiBase}/qa/progress/${taskId}`
  const eventSource = new EventSource(url)
  ... the handlers ...
  eventSourceRef.current = eventSource
  return () => { if (eventSourceRef.current) { eventSourceRef.current.close() } }
  \<close>
\<close>

definition stream_effect :: "string option \<Rightarrow> QAStatus \<Rightarrow> QAStatus" where
  "stream_effect tid s =
     (case tid of
        None \<Rightarrow> s
      | Some t \<Rightarrow>
          if t = [] then s
          else s\<lparr>eventSourceRef := Some Open, connections := connections s @ [t]\<rparr>)"

definition mount_QAStatus :: "string option \<Rightarrow> QAStatus" where
  "mount_QAStatus tid = stream_effect tid new_QAStatus"

text \<open>\<^verbatim>\<open>eventSource.close()\<close>, on the one \<^verbatim>\<open>EventSource\<close> of the page.\<close>

definition close_stream :: "QAStatus \<Rightarrow> QAStatus" where
  "close_stream s = s\<lparr>eventSourceRef := Some Closed\<rparr>"

text \<open>
  \<^verbatim>\<open>
  eventSource.addEventListener('progress', (e) => {
    try { const data = JSON.parse(e.data); setProgressData(data) } catch (error) { }
  })
  eventSource.addEventListener('log', (e) => {
    try { const log = JSON.parse(e.data); setLogs((prev) => [...prev, log]) } catch (error) { }
  })
  \<close>
\<close>

definition on_progress :: "event_data \<Rightarrow> QAStatus \<Rightarrow> QAStatus" where
  "on_progress d s = (case d of Unparseable \<Rightarrow> s | Parsed v \<Rightarrow> s\<lparr>progressData := v\<rparr>)"

definition on_log :: "event_data \<Rightarrow> QAStatus \<Rightarrow> QAStatus" where
  "on_log d s = (case d of Unparseable \<Rightarrow> s | Parsed v \<Rightarrow> s\<lparr>logs := logs s @ [v]\<rparr>)"

text \<open>
  \<^verbatim>\<open>
  eventSource.addEventListener('complete', async (e) => {
    try {
      const data = JSON.parse(e.data)
      setIsProcessing(false)
      if (data.status === 'completed' && data.summary) {
        setSummary(data.summary)
        message.success(...)
      } else if (data.status === 'failed') {
        message.error(...)
      }
      eventSource.close()
    } catch (error) { }
  })
  \<close>
  \<^verbatim>\<open>JSON.parse\<close> may throw, and reading \<^verbatim>\<open>data.status\<close> throws when the data is \<^verbatim>\<open>null\<close>;
  the \<^verbatim>\<open>catch\<close> takes both, and what follows the throw is not run.
\<close>

definition on_complete :: "event_data \<Rightarrow> QAStatus \<Rightarrow> QAStatus" where
  "on_complete d s =
     (case d of
        Unparseable \<Rightarrow> s
      | Parsed v \<Rightarrow>
          (let s1 = s\<lparr>isProcessing := False\<rparr> in
           if nullish v then s1
           else if get_member v ''status'' = JStr ''completed'' \<and> truthy (get_member v ''summary'')
           then close_stream
                  (s1\<lparr>summary := get_member v ''summary'', notices := notices s1 @ [SuccessNotice]\<rparr>)
           else if get_member v ''status'' = JStr ''failed''
           then close_stream (s1\<lparr>notices := notices s1 @ [ErrorNotice]\<rparr>)
           else close_stream s1))"

text \<open>
  \<^verbatim>\<open>
  eventSource.addEventListener('error', (e: any) => {
    try {
      if (e.data) { const errorData = JSON.parse(e.data); message.error(...errorData.error...) }
    } catch (error) { console.error('SSE error:', error) }
    setIsProcessing(false)
    eventSource.close()
  })
  eventSource.onerror = () => {
    console.error('SSE connection error')
    setIsProcessing(false)
    eventSource.close()
  }
  \<close>
  Both handlers are run for an \<^verbatim>\<open>error\<close> event, the listener first.
\<close>

definition error_listener :: "event_data option \<Rightarrow> QAStatus \<Rightarrow> QAStatus" where
  "error_listener d s =
     close_stream
       ((case d of
           Some (Parsed v) \<Rightarrow> if nullish v then s else s\<lparr>notices := notices s @ [ErrorNotice]\<rparr>
         | _ \<Rightarrow> s)\<lparr>isProcessing := False\<rparr>)"

definition onerror_handler :: "QAStatus \<Rightarrow> QAStatus" where
  "onerror_handler s = close_stream (s\<lparr>isProcessing := False\<rparr>)"

text \<open>
  The arrival of an event. An \<^verbatim>\<open>EventSource\<close> that is closed, or none, dispatches nothing;
  an event of another name has no handler.
\<close>

definition deliver :: "stream_event \<Rightarrow> QAStatus \<Rightarrow> QAStatus" where
  "deliver e s =
     (if eventSourceRef s \<noteq> Some Open then s
      else case e of
        ProgressEvent d \<Rightarrow> on_progress d s
      | LogEvent d \<Rightarrow> on_log d s
      | CompleteEvent d \<Rightarrow> on_complete d s
      | ErrorEvent d \<Rightarrow> onerror_handler (error_listener d s)
      | OtherEvent name d \<Rightarrow> s)"

text \<open>The events of a stream, one after the other.\<close>

definition deliver_all :: "stream_event list \<Rightarrow> QAStatus \<Rightarrow> QAStatus" where
  "deliver_all es s = fold deliver es s"


text \<open>The events on which the claim has the stream closed.\<close>

fun terminal_event :: "stream_event \<Rightarrow> bool" where
  "terminal_event (CompleteEvent d) = True"
| "terminal_event (ErrorEvent d) = True"
| "terminal_event e = False"

text \<open>The events on which the code closes it.\<close>

fun closing_event :: "stream_event \<Rightarrow> bool" where
  "closing_event (CompleteEvent (Parsed v)) = (\<not> nullish v)"
| "closing_event (ErrorEvent d) = True"
| "closing_event e = False"


section \<open>The evaluation workflow page: polling of the task status\<close>

text \<open>
  \<^verbatim>\<open>pages/Evaluation/Workflow.tsx\<close>. The page keeps the React state \<^verbatim>\<open>taskId\<close> and
  \<^verbatim>\<open>workflowNotified\<close> and the ref \<^verbatim>\<open>pollingRef\<close>, and polls the status of its task in an
  effect:
  \<^verbatim>\<open>
  useEffect(() => {
    const fetchStatus = async () => {
      if (!taskId) return
      try {
        const status = await evaluationService.getTaskStatus(taskId)
        ... setTaskStatus(status); the stages of the report go to the workflow store ...
        if (status.status === 'completed' && !workflowNotified) {
          setEvaluationWorkflowCompleted(taskId)
          setWorkflowNotified(true)
          message.success(...)
        }
        if (status.status === 'failed' && !workflowNotified) {
          message.error(...)
          setWorkflowNotified(true)
        }
        if (['completed', 'failed'].includes(status.status) && pollingRef.current) {
          clearInterval(pollingRef.current)
          pollingRef.current = null
        } else if (!['completed', 'failed'].includes(status.status) && pollingRef.current) {
          const currentInterval = status.status === 'processing' ? 1000 : 4000
          clearInterval(pollingRef.current)
          pollingRef.current = setInterval(fetchStatus, currentInterval)
        }
      } catch (error) { console.error(...) }
    }
    if (taskId) {
      fetchStatus()
      pollingRef.current = setInterval(fetchStatus, 4000)
    }
    return () => {
      if (pollingRef.current) {
        clearInterval(pollingRef.current)
        pollingRef.current = null
      }
    }
  }, [taskId, workflowNotified, setEvaluationWorkflowCompleted, bulkUpdateEvaluationStages])
  \<close>
  The two functions in the dependency list are fixed by \<^verbatim>\<open>useMemo\<close> in \<^verbatim>\<open>useWorkflow\<close>, so
  the effect is run again when, and only when, a render is committed in which \<^verbatim>\<open>taskId\<close>
  or \<^verbatim>\<open>workflowNotified\<close> differs from the render of its last run; React then runs the
  cleanup of the last run first.

  Each run of the effect makes its own \<^verbatim>\<open>fetchStatus\<close>, which sees the \<^verbatim>\<open>taskId\<close> and the
  \<^verbatim>\<open>workflowNotified\<close> of the render it was made in, whatever the state is when it is
  called by a timer or resumed after the \<^verbatim>\<open>await\<close>.
\<close>

record closure =
  seen_taskId :: string
  seen_notified :: bool

text \<open>An interval timer of the browser: its handle, its delay in ms, the function it calls.\<close>

record interval_timer =
  handle :: nat
  delay :: nat
  callback :: closure

text \<open>
  The page. \<open>effect_deps\<close> are the \<^verbatim>\<open>taskId\<close> and \<^verbatim>\<open>workflowNotified\<close> of the render in
  which the effect was last run. \<open>timers\<close> are the interval timers that are set and not
  cleared; handles are positive, as in the browser, where \<open>pollingRef\<close> holding one is
  truthy. \<open>requests\<close> are the status requests sent, by task id, in order; \<open>awaiting\<close>
  are those not yet answered, by their index in \<open>requests\<close>, each with the \<^verbatim>\<open>fetchStatus\<close>
  that waits for the answer. \<open>completed_workflows\<close> are the calls of
  \<^verbatim>\<open>setEvaluationWorkflowCompleted\<close>.
\<close>

record Poller =
  taskId :: "string option"
  workflowNotified :: bool
  effect_deps :: "string option \<times> bool"
  pollingRef :: "nat option"
  timers :: "interval_timer list"
  next_handle :: nat
  requests :: "string list"
  awaiting :: "(nat \<times> closure) list"
  completed_workflows :: "string list"
  mounted :: bool

text \<open>
  The page after its first render: no task, so the first run of the effect has done
  nothing.
\<close>

definition new_Poller :: Poller where
  "new_Poller =
     \<lparr>taskId = None, workflowNotified = False, effect_deps = (None, False), pollingRef = None,
      timers = [], next_handle = 1, requests = [], awaiting = [], completed_workflows = [],
      mounted = True\<rparr>"

text \<open>\<^verbatim>\<open>setInterval(f, d)\<close>; the handle it returns is \<open>next_handle\<close> of the state before.\<close>

definition setInterval :: "closure \<Rightarrow> nat \<Rightarrow> Poller \<Rightarrow> Poller" where
  "setInterval f d p =
     p\<lparr>timers := timers p @ [\<lparr>handle = next_handle p, delay = d, callback = f\<rparr>],
       next_handle := Suc (next_handle p)\<rparr>"

definition clearInterval :: "nat \<Rightarrow> Poller \<Rightarrow> Poller" where
  "clearInterval h p = p\<lparr>timers := filter (\<lambda>t. handle t \<noteq> h) (timers p)\<rparr>"

text \<open>\<^verbatim>\<open>if (pollingRef.current)\<close>: the ref holds a handle, and the handle is not 0.\<close>

definition polling :: "Poller \<Rightarrow> bool" where
  "polling p = (case pollingRef p of None \<Rightarrow> False | Some h \<Rightarrow> h \<noteq> 0)"

text \<open>
  A call of \<^verbatim>\<open>fetchStatus\<close>, up to its \<^verbatim>\<open>await\<close>: the request is sent, unless the task id
  it sees is empty.
\<close>

definition fetchStatus :: "closure \<Rightarrow> Poller \<Rightarrow> Poller" where
  "fetchStatus f p =
     (if seen_taskId f = [] then p
      else p\<lparr>requests := requests p @ [seen_taskId f],
             awaiting := awaiting p @ [(length (requests p), f)]\<rparr>)"

text \<open>
  \<^verbatim>\<open>fetchStatus\<close> after its \<^verbatim>\<open>await\<close>, on a report with the given \<^verbatim>\<open>status\<close> whose stages
  have gone to the store.
\<close>

definition terminal :: "string \<Rightarrow> bool" where
  "terminal status = (status \<in> set [''completed'', ''failed''])"

definition on_report :: "closure \<Rightarrow> string \<Rightarrow> Poller \<Rightarrow> Poller" where
  "on_report f status p =
     (let p1 = (if status = ''completed'' \<and> \<not> seen_notified f
                then p\<lparr>completed_workflows := completed_workflows p @ [seen_taskId f],
                       workflowNotified := True\<rparr>
                else p);
          p2 = (if status = ''failed'' \<and> \<not> seen_notified f
                then p1\<lparr>workflowNotified := True\<rparr>
                else p1)
      in if terminal status \<and> polling p2
         then (clearInterval (the (pollingRef p2)) p2)\<lparr>pollingRef := None\<rparr>
         else if \<not> terminal status \<and> polling p2
         then (let currentInterval = (if status = ''processing'' then 1000 else 4000);
                   p3 = clearInterval (the (pollingRef p2)) p2
               in (setInterval f currentInterval p3)\<lparr>pollingRef := Some (next_handle p3)\<rparr>)
         else p2)"

text \<open>
  The answer to a request. \<open>Rejected\<close>: the request fails, or the handling of the
  report throws before the status is looked at; the \<^verbatim>\<open>catch\<close> takes it and nothing else
  is done. \<open>Resolved status\<close>: a report with that status.
\<close>

datatype answer = Rejected | Resolved string

definition respond :: "nat \<Rightarrow> answer \<Rightarrow> Poller \<Rightarrow> Poller" where
  "respond n a p =
     (case map_of (awaiting p) n of
        None \<Rightarrow> p
      | Some f \<Rightarrow>
          (let p1 = p\<lparr>awaiting := filter (\<lambda>r. fst r \<noteq> n) (awaiting p)\<rparr> in
           case a of Rejected \<Rightarrow> p1 | Resolved status \<Rightarrow> on_report f status p1))"

text \<open>An interval timer fires: its function is called.\<close>

definition tick :: "nat \<Rightarrow> Poller \<Rightarrow> Poller" where
  "tick h p =
     (case find (\<lambda>t. handle t = h) (timers p) of
        None \<Rightarrow> p
      | Some t \<Rightarrow> fetchStatus (callback t) p)"

text \<open>The body of the effect, and its cleanup.\<close>

definition current_closure :: "Poller \<Rightarrow> closure" where
  "current_closure p =
     \<lparr>seen_taskId = (case taskId p of None \<Rightarrow> [] | Some t \<Rightarrow> t),
      seen_notified = workflowNotified p\<rparr>"

definition polling_effect :: "Poller \<Rightarrow> Poller" where
  "polling_effect p =
     (let f = current_closure p;
          p1 = (if seen_taskId f \<noteq> []
                then (let p2 = fetchStatus f p
                      in (setInterval f 4000 p2)\<lparr>pollingRef := Some (next_handle p2)\<rparr>)
                else p)
      in p1\<lparr>effect_deps := (taskId p, workflowNotified p)\<rparr>)"

definition polling_cleanup :: "Poller \<Rightarrow> Poller" where
  "polling_cleanup p =
     (if polling p then (clearInterval (the (pollingRef p)) p)\<lparr>pollingRef := None\<rparr> else p)"

text \<open>
  React commits a render: if the dependencies have changed since the last run of the
  effect, the cleanup of that run and then the effect are run.
\<close>

definition react_commit :: "Poller \<Rightarrow> Poller" where
  "react_commit p =
     (if mounted p \<and> effect_deps p \<noteq> (taskId p, workflowNotified p)
      then polling_effect (polling_cleanup p)
      else p)"

text \<open>
  \<^verbatim>\<open>startEvaluation\<close>, as far as this state goes: \<^verbatim>\<open>setWorkflowNotified(false)\<close> before the
  task is created, \<^verbatim>\<open>setTaskId(response.task_id)\<close> after.
\<close>

definition startEvaluation :: "string \<Rightarrow> Poller \<Rightarrow> Poller" where
  "startEvaluation t p = p\<lparr>workflowNotified := False, taskId := Some t\<rparr>"

text \<open>The page is unmounted: the cleanup of the last run of the effect is run.\<close>

definition unmount_Poller :: "Poller \<Rightarrow> Poller" where
  "unmount_Poller p = (polling_cleanup p)\<lparr>mounted := False\<rparr>"

text \<open>What happens to the page, and a history of it.\<close>

datatype poll_event =
    StartEvaluation string
  | Commit
  | Tick nat
  | Respond nat answer
  | Unmount

fun poll_step :: "poll_event \<Rightarrow> Poller \<Rightarrow> Poller" where
  "poll_step (StartEvaluation t) p = (if mounted p then startEvaluation t p else p)"
| "poll_step Commit p = react_commit p"
| "poll_step (Tick h) p = tick h p"
| "poll_step (Respond n a) p = respond n a p"
| "poll_step Unmount p = (if mounted p then unmount_Poller p else p)"

definition poll_run :: "poll_event list \<Rightarrow> Poller \<Rightarrow> Poller" where
  "poll_run es p = fold poll_step es p"

text \<open>The ref holds the one timer that is set, or there is none.\<close>

definition one_timer :: "Poller \<Rightarrow> bool" where
  "one_timer p =
     (0 < next_handle p
    \<and> (case pollingRef p of
         None \<Rightarrow> timers p = []
       | Some h \<Rightarrow> h \<noteq> 0 \<and> h < next_handle p \<and> map handle (timers p) = [h]))"


section \<open>Properties of the QA service\<close>

lemma show_nat_digit: "n < 10 \<Longrightarrow> show_nat n = [''0123456789'' ! n]"
  by (subst show_nat.simps) simp

lemma String_num_5: "String_num fmt 5 = ''5''"
  by (simp add: String_num_def show_nat_digit)

lemma String_num_7: "String_num fmt 7 = ''7''"
  by (simp add: String_num_def show_nat_digit)

lemma show_nat_100: "show_nat 100 = ''100''"
  by code_simp

lemma String_num_100: "String_num fmt 100 = ''100''"
  by (simp add: String_num_def show_nat_100)

text \<open>
  C10. In the query string of every call of generateQA an omitted option takes a fixed
  default: \<^verbatim>\<open>suggest_qa_count\<close> is \<^verbatim>\<open>useSuggested\<close> when \<^verbatim>\<open>suggestQACount\<close> is not given;
  \<^verbatim>\<open>num_pairs_per_section\<close>, \<^verbatim>\<open>min_density_score\<close> and \<^verbatim>\<open>min_quality_score\<close> default to
  5, \<^verbatim>\<open>min_factual_score\<close> and \<^verbatim>\<open>min_overall_score\<close> to 7, \<^verbatim>\<open>qa_sample_percentage\<close> to 100
  and the four skip flags to false.
\<close>

theorem generateQA_defaults:
  fixes options :: GenerateQAOptions and fmt :: "rat \<Rightarrow> string"
  defines "q \<equiv> query_value (generateQA_params fmt options)"
  shows "(suggestQACount options = None \<longrightarrow>
            q ''suggest_qa_count'' = Some (String_bool (useSuggested options)))
       \<and> (numPairs options = None \<longrightarrow> q ''num_pairs_per_section'' = Some ''5'')
       \<and> (minDensityScore options = None \<longrightarrow> q ''min_density_score'' = Some ''5'')
       \<and> (minQualityScore options = None \<longrightarrow> q ''min_quality_score'' = Some ''5'')
       \<and> (minFactualScore options = None \<longrightarrow> q ''min_factual_score'' = Some ''7'')
       \<and> (minOverallScore options = None \<longrightarrow> q ''min_overall_score'' = Some ''7'')
       \<and> (samplePercentage options = None \<longrightarrow> q ''qa_sample_percentage'' = Some ''100'')
       \<and> (skipExtract options = None \<longrightarrow> q ''skip_extract'' = Some ''false'')
       \<and> (skipEvaluate options = None \<longrightarrow> q ''skip_evaluate'' = Some ''false'')
       \<and> (skipQA options = None \<longrightarrow> q ''skip_qa'' = Some ''false'')
       \<and> (skipQAEvaluate options = None \<longrightarrow> q ''skip_qa_evaluate'' = Some ''false'')"
  unfolding q_def query_value_def generateQA_params_def Let_def
  by (simp add: String_num_5 String_num_7 String_num_100 String_bool_def)

theorem generateQA_defaults_witness:
  "query_value
     (generateQA_params (\<lambda>r. [])
        \<lparr>numPairs = None, useSuggested = True, suggestQACount = None, includeReason = False,
         minDensityScore = None, minQualityScore = None, skipExtract = None,
         skipEvaluate = None, skipQA = None, skipQAEvaluate = None, minFactualScore = None,
         minOverallScore = None, samplePercentage = None\<rparr>)
     ''suggest_qa_count'' = Some ''true''"
  using generateQA_defaults
    [of "\<lparr>numPairs = None, useSuggested = True, suggestQACount = None, includeReason = False,
         minDensityScore = None, minQualityScore = None, skipExtract = None,
         skipEvaluate = None, skipQA = None, skipQAEvaluate = None, minFactualScore = None,
         minOverallScore = None, samplePercentage = None\<rparr>" "\<lambda>r. []"]
  by (simp add: String_bool_def)


section \<open>Properties of objects\<close>

lemma update_absent: "k \<notin> fst ` set al \<Longrightarrow> AList.update k v al = al @ [(k, v)]"
  by (induction al) auto

lemma assign_Nil [simp]: "assign t [] = t"
  by (simp add: assign_def)

lemma assign_Cons [simp]: "assign t (kv # s) = assign (AList.update (fst kv) (snd kv) t) s"
  by (simp add: assign_def)

lemma assign_distinct_append: "distinct (map fst (t @ s)) \<Longrightarrow> assign t s = t @ s"
proof (induction s arbitrary: t)
  case Nil
  then show ?case by simp
next
  case (Cons kv s)
  then have "fst kv \<notin> fst ` set t" by auto
  then have "AList.update (fst kv) (snd kv) t = t @ [kv]"
    by (simp add: update_absent)
  moreover have "distinct (map fst ((t @ [kv]) @ s))"
    using Cons.prems by simp
  ultimately show ?case
    using Cons.IH [of "t @ [kv]"] by simp
qed

lemma assign_Nil_distinct: "distinct (map fst s) \<Longrightarrow> assign [] s = s"
  using assign_distinct_append [of "[]" s] by simp

lemma distinct_assign: "distinct (map fst t) \<Longrightarrow> distinct (map fst (assign t s))"
  by (induction s arbitrary: t) (simp_all add: AList.distinct_update)

lemma map_of_assign:
  "map_of (assign t s) k = (case map_of (rev s) k of Some v \<Rightarrow> Some v | None \<Rightarrow> map_of t k)"
proof (induction s arbitrary: t)
  case Nil
  then show ?case by simp
next
  case (Cons kv s)
  show ?case
    by (cases kv) (simp add: Cons.IH AList.update_conv' map_add_def split: option.splits)
qed

lemma map_of_rev_distinct: "distinct (map fst xs) \<Longrightarrow> map_of (rev xs) k = map_of xs k"
proof (induction xs)
  case Nil
  then show ?case by simp
next
  case (Cons kv xs)
  then have "fst kv \<notin> fst ` set xs" by auto
  then have "map_of xs (fst kv) = None"
    by (simp add: map_of_eq_None_iff)
  with Cons show ?case
    by (cases kv) (auto simp: map_add_def split: option.splits)
qed

lemma values_update: "snd ` set (AList.update k v al) \<subseteq> insert v (snd ` set al)"
  by (induction al) auto

lemma values_assign: "snd ` set (assign t s) \<subseteq> snd ` set t \<union> snd ` set s"
proof (induction s arbitrary: t)
  case Nil
  then show ?case by simp
next
  case (Cons kv s)
  have "snd ` set (assign (AList.update (fst kv) (snd kv) t) s)
      \<subseteq> snd ` set (AList.update (fst kv) (snd kv) t) \<union> snd ` set s"
    by (rule Cons.IH)
  also have "\<dots> \<subseteq> insert (snd kv) (snd ` set t) \<union> snd ` set s"
    using values_update [of "fst kv" "snd kv" t] by blast
  finally show ?case by auto
qed

lemma keys_update_present:
  "k \<in> fst ` set al \<Longrightarrow> map fst (AList.update k v al) = map fst al"
  by (simp add: AList.update_keys)

lemma get_member_update:
  "get_member (JObj (AList.update k v al)) k' = (if k' = k then v else get_member (JObj al) k')"
  by (simp add: AList.update_conv')


section \<open>The keys of the evaluation stages\<close>

lemma state_saveState [simp]: "state (saveState st) = state st"
  by (simp add: saveState_def notify_def split: option.splits)

lemma current_stages_saveState [simp]: "current_stages (saveState st) = current_stages st"
  by (simp add: current_stages_def)

lemma current_stages_modify_evaluation:
  "current_stages (modify_evaluation f st) = get_member (JObj (f (evaluation (state st)))) ''stages''"
  by (simp add: current_stages_def modify_evaluation_def)

lemma current_stages_other [simp]:
  "current_stages (modify_flmm f st) = current_stages st"
  "current_stages (modify_qa g st) = current_stages st"
  "current_stages (replace_flmm v st) = current_stages st"
  "current_stages (replace_qa w st) = current_stages st"
  by (simp_all add: current_stages_def modify_flmm_def modify_qa_def replace_flmm_def replace_qa_def)

lemma current_stages_replace_evaluation:
  "current_stages (replace_evaluation e st) = get_member (JObj e) ''stages''"
  by (simp add: current_stages_def replace_evaluation_def)

lemma distinct_validKeys: "distinct validKeys"
  by (simp add: validKeys_def)

lemma key_name_valid: "key_name k \<in> set validKeys"
  by (cases k) (simp_all add: validKeys_def)

lemma stages_copy: "map fst sobj = validKeys \<Longrightarrow> spread [] (JObj sobj) = sobj"
  using distinct_validKeys by (simp add: spread_def assign_Nil_distinct)

lemma keys_ok_ensure:
  "keys_ok st \<Longrightarrow> current_stages (ensureEvaluationStages st) = current_stages st"
proof -
  assume "keys_ok st"
  then have "truthy (get_member (JObj (evaluation (state st))) ''stages'')"
    by (auto simp: keys_ok_def current_stages_def)
  then show ?thesis
    by (simp add: ensureEvaluationStages_def current_stages_modify_evaluation)
      (simp add: current_stages_def)
qed

lemma keys_ok_set_stages:
  "map fst sobj = validKeys \<Longrightarrow>
   keys_ok (saveState (modify_evaluation (AList.update ''stages'' (JObj sobj)) st))"
  by (simp add: keys_ok_def current_stages_modify_evaluation AList.update_conv')

lemma keys_ok_updateEvaluationStage:
  assumes "keys_ok st" and "updateEvaluationStage k snapshot st = Some st'"
  shows "keys_ok st'"
proof -
  from assms(1) obtain sobj where s: "current_stages st = JObj sobj" "map fst sobj = validKeys"
    by (auto simp: keys_ok_def)
  define sobj' where "sobj' = AList.update (key_name k)
      (JObj (spread (spread [] (or_else (get_member (JObj sobj) (key_name k))
         (get_member (JObj createDefaultEvaluationStages) (key_name k)))) (partial_obj snapshot))) sobj"
  have "key_name k \<in> fst ` set sobj"
    using key_name_valid [of k] s(2) by (metis set_map)
  then have keys: "map fst sobj' = validKeys"
    unfolding sobj'_def using s(2) by (simp add: keys_update_present)
  have "st' = saveState (modify_evaluation (AList.update ''stages'' (JObj sobj'))
      (ensureEvaluationStages st))"
    using assms(2) s(1) keys
    by (simp add: updateEvaluationStage_def keys_ok_ensure [OF assms(1)] Let_def sobj'_def stages_copy)
  then show ?thesis
    using keys by (simp add: keys_ok_set_stages)
qed

lemma bulk_entries_keys:
  "map fst sobj = validKeys \<Longrightarrow>
   \<exists>sobj'. bulk_entries smap (JObj sobj) = Some (JObj sobj') \<and> map fst sobj' = validKeys"
proof (induction smap arbitrary: sobj)
  case Nil
  then show ?case by simp
next
  case (Cons e smap)
  obtain key snapshot where e: "e = (key, snapshot)" by (cases e)
  show ?case
  proof (cases "key \<in> set validKeys")
    case False
    then show ?thesis using Cons e by simp
  next
    case True
    define sobj1 where "sobj1 = (if \<not> truthy (get_member (JObj sobj) key)
        then AList.update key (get_member (JObj createDefaultEvaluationStages) key) sobj else sobj)"
    define sobj2 where "sobj2 = AList.update key
        (JObj (spread (spread [] (get_member (JObj sobj1) key)) (partial_obj snapshot))) sobj1"
    have in1: "key \<in> fst ` set sobj"
      using True Cons.prems by (metis set_map)
    then have k1: "map fst sobj1 = validKeys"
      unfolding sobj1_def using Cons.prems by (simp add: keys_update_present)
    then have "key \<in> fst ` set sobj1"
      using True by (metis set_map)
    then have k2: "map fst sobj2 = validKeys"
      unfolding sobj2_def using k1 by (simp add: keys_update_present)
    have "bulk_entries (e # smap) (JObj sobj) = bulk_entries smap (JObj sobj2)"
      using True by (simp add: e sobj1_def sobj2_def Let_def)
    then show ?thesis
      using Cons.IH [OF k2] by simp
  qed
qed

lemma keys_ok_bulkUpdateEvaluationStages:
  assumes "keys_ok st" and "bulkUpdateEvaluationStages smap st = Some st'"
  shows "keys_ok st'"
proof -
  from assms(1) obtain sobj where s: "current_stages st = JObj sobj" "map fst sobj = validKeys"
    by (auto simp: keys_ok_def)
  from bulk_entries_keys [OF s(2)] obtain sobj'
    where b: "bulk_entries smap (JObj sobj) = Some (JObj sobj')" "map fst sobj' = validKeys"
    by blast
  have "st' = saveState (modify_evaluation (AList.update ''stages'' (JObj sobj'))
      (ensureEvaluationStages st))"
    using assms(2) s(1) b
    by (simp add: bulkUpdateEvaluationStages_def keys_ok_ensure [OF assms(1)] stages_copy)
  then show ?thesis
    using b(2) by (simp add: keys_ok_set_stages)
qed

lemma keys_createDefaultEvaluationStages: "map fst createDefaultEvaluationStages = validKeys"
  by (simp add: createDefaultEvaluationStages_def validKeys_def)

lemma keys_ok_fallback:
  "keys_ok (saveState (st\<lparr>state := fallbackState d, shares_flmm := a, shares_qa := b,
                          shares_evaluation := c\<rparr>))"
  by (simp add: keys_ok_def current_stages_def fallbackState_def keys_createDefaultEvaluationStages)

lemma keys_ok_update_other:
  "keys_ok st \<Longrightarrow> k \<noteq> ''stages'' \<Longrightarrow> k' \<noteq> ''stages'' \<Longrightarrow>
   keys_ok (saveState (modify_evaluation (\<lambda>e. AList.update k v (AList.update k' v' e)) st))"
  by (simp add: keys_ok_def current_stages_modify_evaluation AList.update_conv')
    (simp add: current_stages_def)

lemma keys_ok_update_params:
  "keys_ok st \<Longrightarrow>
   keys_ok (saveState (modify_evaluation (\<lambda>e. AList.update ''params'' (f e) e) st))"
  by (simp add: keys_ok_def current_stages_modify_evaluation AList.update_conv')
    (simp add: current_stages_def)

lemma keys_ok_call:
  assumes "keys_ok st" and "call c st = Some st'"
  shows "keys_ok st'"
proof (cases c)
  case (UpdateEvaluationStage k snapshot)
  then show ?thesis using assms keys_ok_updateEvaluationStage by simp
next
  case (BulkUpdateEvaluationStages smap)
  then show ?thesis using assms keys_ok_bulkUpdateEvaluationStages by simp
next
  case ResetAll
  then show ?thesis using assms keys_ok_fallback by (auto simp: resetAll_def)
next
  case ResetEvaluation
  then show ?thesis
    using assms
    by (auto simp: resetEvaluation_def keys_ok_def current_stages_replace_evaluation
        fresh_evaluation_def keys_createDefaultEvaluationStages)
next
  case ResetEvaluationStages
  then show ?thesis
    using assms keys_ok_set_stages [OF keys_createDefaultEvaluationStages]
    by (auto simp: resetEvaluationStages_def)
next
  case (SetEvaluationWorkflowCompleted i)
  then show ?thesis
    using assms keys_ok_update_other [of st "''evaluationId''" "''workflowCompleted''"]
    by (auto simp: setEvaluationWorkflowCompleted_def)
next
  case (SaveEvaluationParams p)
  then show ?thesis
    using assms keys_ok_update_params [of st] by (auto simp: saveEvaluationParams_def)
qed (use assms in \<open>auto simp: keys_ok_def setFLMMProcessCompleted_def resetFLMM_def
      setQAProcessCompleted_def setQAGenerateTaskId_def setQAEvaluateTaskId_def setQAStep_def
      saveQAParams_def resetQA_def\<close>)

lemma keys_ok_run: "keys_ok st \<Longrightarrow> keys_ok (run cs st)"
proof (induction cs arbitrary: st)
  case Nil
  then show ?case by simp
next
  case (Cons c cs)
  then show ?case
    by (cases "call c st") (auto intro: keys_ok_call)
qed

lemma loadState_nothing_stored:
  "map_of (items stg) STORAGE_KEY = None \<Longrightarrow>
   loadState d hs stg = (if hs then fallbackState d else d)"
  by (simp add: loadState_def getItem_def)

lemma keys_ok_new:
  assumes "map_of (items stg) STORAGE_KEY = None"
  shows "keys_ok (new_WorkflowStore hs stg)"
  by (simp add: keys_ok_def current_stages_def new_WorkflowStore_def
      loadState_nothing_stored [OF assms] fallbackState_def defaultState_def
      keys_createDefaultEvaluationStages)

lemma bulk_entries_filter:
  "bulk_entries (filter (\<lambda>e. fst e \<in> set validKeys) smap) stages = bulk_entries smap stages"
proof (induction smap arbitrary: stages)
  case Nil
  then show ?case by simp
next
  case (Cons e smap)
  obtain key snapshot where e: "e = (key, snapshot)" by (cases e)
  show ?case
    by (cases stages) (simp_all add: e Cons.IH Let_def)
qed

text \<open>
  C9. After any sequence of operations on a store that started with nothing saved (its
  state is the default state), \<^verbatim>\<open>evaluation.stages\<close> has exactly the keys \<open>init\<close>,
  \<open>stage1\<close>, \<open>stage2\<close>, \<open>result\<close>; and \<^verbatim>\<open>bulkUpdateEvaluationStages\<close> does with any argument
  what it does with the entries of the argument whose key is one of the four.
\<close>

theorem evaluation_stage_keys:
  assumes "map_of (items stg) STORAGE_KEY = None"
  shows "stage_keys (run cs (new_WorkflowStore hs stg)) = [''init'', ''stage1'', ''stage2'', ''result'']
       \<and> bulkUpdateEvaluationStages smap (run cs (new_WorkflowStore hs stg))
         = bulkUpdateEvaluationStages (filter (\<lambda>e. fst e \<in> set validKeys) smap)
             (run cs (new_WorkflowStore hs stg))"
proof
  have "keys_ok (run cs (new_WorkflowStore hs stg))"
    by (rule keys_ok_run) (rule keys_ok_new [OF assms])
  then show "stage_keys (run cs (new_WorkflowStore hs stg)) = [''init'', ''stage1'', ''stage2'', ''result'']"
    by (auto simp: keys_ok_def stage_keys_def validKeys_def)
next
  show "bulkUpdateEvaluationStages smap (run cs (new_WorkflowStore hs stg))
      = bulkUpdateEvaluationStages (filter (\<lambda>e. fst e \<in> set validKeys) smap)
          (run cs (new_WorkflowStore hs stg))"
    by (simp add: bulkUpdateEvaluationStages_def bulk_entries_filter)
qed



section \<open>Shape of the state\<close>

lemma set_update_subset: "set (AList.update k v al) \<subseteq> insert (k, v) (set al)"
  by (induction al) auto

lemma set_assign_subset: "set (assign t s) \<subseteq> set t \<union> set s"
proof (induction s arbitrary: t)
  case Nil
  then show ?case by simp
next
  case (Cons kv s)
  have "set (assign (AList.update (fst kv) (snd kv) t) s)
      \<subseteq> set (AList.update (fst kv) (snd kv) t) \<union> set s"
    by (rule Cons.IH)
  also have "\<dots> \<subseteq> insert kv (set t) \<union> set s"
    using set_update_subset [of "fst kv" "snd kv" t] by auto
  finally show ?case by auto
qed

lemma json_prim_lit [simp]: "finite_prim p \<Longrightarrow> json_prim (lit p)"
  by (cases p) simp_all

lemma json_prim_opt_str [simp]: "json_prim (opt_str x)"
  by (cases x) simp_all

lemma to_json_prim: "json_prim v \<Longrightarrow> to_json v = v"
  by (cases v) simp_all

lemma to_json_Undefined_iff: "to_json v = Undefined \<longleftrightarrow> v = Undefined"
  by (cases v) simp_all

lemma flat_Nil [simp]: "flat []"
  by (simp add: flat_def)

lemma flat_update: "flat f \<Longrightarrow> json_prim v \<Longrightarrow> flat (AList.update k v f)"
  unfolding flat_def
  by (auto simp: AList.distinct_update dest!: subsetD [OF set_update_subset])

lemma flat_assign: "flat t \<Longrightarrow> \<forall>v\<in>snd ` set s. json_prim v \<Longrightarrow> flat (assign t s)"
  unfolding flat_def
  by (auto simp: distinct_assign dest!: subsetD [OF set_assign_subset])

lemma prim_entries_partial:
  "finite_partial ps \<Longrightarrow> \<forall>v\<in>snd ` set (own_entries (partial_obj ps)). json_prim v"
  by (auto simp: partial_obj_def finite_partial_def list_all_iff)

lemma prim_entries_string: "\<forall>v\<in>snd ` set (own_entries (JStr s)). json_prim v"
  by (auto dest!: set_zip_rightD)

lemma prim_entries_prim: "json_prim v \<Longrightarrow> \<forall>x\<in>snd ` set (own_entries v). json_prim x"
  using prim_entries_string by (cases v) auto

lemma flat_spread_partial:
  "flat p \<Longrightarrow> finite_partial ps \<Longrightarrow> flat (spread (spread [] (JObj p)) (partial_obj ps))"
  unfolding spread_def
  by (intro flat_assign prim_entries_partial) (auto simp: flat_def)

lemma shape_qa_update:
  assumes "shape_qa q" and "json_prim v" and "k \<noteq> ''params''" and "k = ''step'' \<longrightarrow> v \<noteq> Null"
  shows "shape_qa (AList.update k v q)"
  using assms set_update_subset [of k v q]
  unfolding shape_qa_def
  by (auto simp: AList.distinct_update AList.update_conv')

lemma shape_qa_update_params:
  assumes "shape_qa q" and "flat p"
  shows "shape_qa (AList.update ''params'' (JObj p) q)"
  using assms set_update_subset [of "''params''" "JObj p" q]
  unfolding shape_qa_def
  by (auto simp: AList.distinct_update AList.update_conv')

lemma shape_evaluation_update:
  assumes "shape_evaluation e" and "json_prim v" and "k \<noteq> ''params''" and "k \<noteq> ''stages''"
  shows "shape_evaluation (AList.update k v e)"
  using assms set_update_subset [of k v e]
  unfolding shape_evaluation_def
  by (auto simp: AList.distinct_update AList.update_conv')

lemma shape_evaluation_update_params:
  assumes "shape_evaluation e" and "flat p"
  shows "shape_evaluation (AList.update ''params'' (JObj p) e)"
  using assms set_update_subset [of "''params''" "JObj p" e]
  unfolding shape_evaluation_def
  by (auto simp: AList.distinct_update AList.update_conv')

lemma shape_evaluation_update_stages:
  assumes "shape_evaluation e" and "shape_stages sobj"
  shows "shape_evaluation (AList.update ''stages'' (JObj sobj) e)"
  using assms set_update_subset [of "''stages''" "JObj sobj" e]
  unfolding shape_evaluation_def
  by (auto simp: AList.distinct_update AList.update_conv')

lemma shape_qa_params:
  "shape_qa q \<Longrightarrow> \<exists>p. get_member (JObj q) ''params'' = JObj p \<and> flat p"
  by (auto simp: shape_qa_def)

lemma shape_evaluation_params:
  "shape_evaluation e \<Longrightarrow> \<exists>p. get_member (JObj e) ''params'' = JObj p \<and> flat p"
  by (auto simp: shape_evaluation_def)

lemma shape_evaluation_stages:
  "shape_evaluation e \<Longrightarrow> \<exists>sobj. get_member (JObj e) ''stages'' = JObj sobj \<and> shape_stages sobj"
  by (auto simp: shape_evaluation_def)


section \<open>What JSON keeps of an object\<close>


lemma to_json_JObj: "to_json (JObj kvs) = JObj (json_entries kvs)"
proof -
  have "map (map_prod id to_json) kvs = map (\<lambda>kv. (fst kv, to_json (snd kv))) kvs"
    by (induction kvs) auto
  then show ?thesis
    by (simp only: to_json.simps json_entries_def)
qed

lemma json_entries_Nil [simp]: "json_entries [] = []"
  by (simp add: json_entries_def)

lemma json_entries_Cons:
  "json_entries ((k, v) # kvs) =
     (if v = Undefined then json_entries kvs else (k, to_json v) # json_entries kvs)"
  by (simp add: json_entries_def to_json_Undefined_iff)

lemma keys_json_entries: "fst ` set (json_entries kvs) \<subseteq> fst ` set kvs"
  by (auto simp: json_entries_def intro: rev_image_eqI)

lemma map_of_json_entries:
  "distinct (map fst kvs) \<Longrightarrow>
   map_of (json_entries kvs) k
     = (case map_of kvs k of None \<Rightarrow> None
        | Some v \<Rightarrow> if v = Undefined then None else Some (to_json v))"
proof (induction kvs)
  case Nil
  then show ?case by simp
next
  case (Cons kv kvs)
  obtain k0 v0 where kv: "kv = (k0, v0)" by (cases kv)
  have "k0 \<notin> fst ` set (json_entries kvs)"
    using Cons.prems kv keys_json_entries [of kvs] by auto
  then have none: "map_of (json_entries kvs) k0 = None"
    by (simp add: map_of_eq_None_iff)
  have ih: "map_of (json_entries kvs) k
      = (case map_of kvs k of None \<Rightarrow> None
         | Some v \<Rightarrow> if v = Undefined then None else Some (to_json v))"
    using Cons by simp
  show ?case
    unfolding kv json_entries_Cons using none ih by simp
qed

lemma distinct_json_entries: "distinct (map fst kvs) \<Longrightarrow> distinct (map fst (json_entries kvs))"
proof -
  assume "distinct (map fst kvs)"
  then have "distinct (map fst (map (\<lambda>kv. (fst kv, to_json (snd kv))) kvs))"
    by (simp add: comp_def)
  then show ?thesis
    unfolding json_entries_def by (rule distinct_map_filter)
qed

lemma json_entries_defined: "\<forall>x\<in>set (json_entries kvs). snd x \<noteq> Undefined"
  by (simp add: json_entries_def)

lemma json_entries_origin:
  assumes "x \<in> set (json_entries kvs)"
  shows "\<exists>v. (fst x, v) \<in> set kvs \<and> snd x = to_json v"
proof -
  from assms obtain kv where "kv \<in> set kvs" and "x = (fst kv, to_json (snd kv))"
    by (auto simp: json_entries_def)
  then show ?thesis by (intro exI [of _ "snd kv"]) simp
qed

lemma get_member_json_entries:
  "distinct (map fst kvs) \<Longrightarrow>
   get_member (JObj (json_entries kvs)) k = to_json (get_member (JObj kvs) k)"
  by (simp add: map_of_json_entries split: option.splits)

lemma get_member_merge:
  assumes "distinct (map fst d)" and "distinct (map fst src)"
    and "\<forall>x\<in>set src. snd x \<noteq> Undefined"
  shows "get_member (JObj (assign (assign [] d) src)) k
       = (if get_member (JObj src) k = Undefined then get_member (JObj d) k
          else get_member (JObj src) k)"
proof (cases "map_of src k")
  case None
  then show ?thesis
    by (simp add: map_of_assign map_of_rev_distinct [OF assms(1)] map_of_rev_distinct [OF assms(2)]
        split: option.splits)
next
  case (Some v)
  then have "(k, v) \<in> set src" by (rule map_of_SomeD)
  then have "v \<noteq> Undefined" using assms(3) by force
  with Some show ?thesis
    by (simp add: map_of_assign map_of_rev_distinct [OF assms(2)])
qed

lemma get_member_in_set:
  "get_member (JObj kvs) k = Undefined \<or> (k, get_member (JObj kvs) k) \<in> set kvs"
proof (cases "map_of kvs k")
  case None
  then show ?thesis by simp
next
  case (Some v)
  then have "(k, v) \<in> set kvs" by (rule map_of_SomeD)
  with Some show ?thesis by simp
qed

lemma flat_member_prim: "flat kvs \<Longrightarrow> json_prim (get_member (JObj kvs) k)"
proof -
  assume f: "flat kvs"
  show ?thesis
  proof (cases "get_member (JObj kvs) k = Undefined")
    case True
    then show ?thesis by simp
  next
    case False
    then have "(k, get_member (JObj kvs) k) \<in> set kvs"
      using get_member_in_set [of kvs k] by blast
    then have "get_member (JObj kvs) k \<in> snd ` set kvs" by force
    then show ?thesis using f unfolding flat_def by blast
  qed
qed

lemma json_flat_member:
  assumes "flat kvs"
  shows "get_member (JObj (json_entries kvs)) k = get_member (JObj kvs) k"
proof -
  have d: "distinct (map fst kvs)" using assms by (simp add: flat_def)
  have "get_member (JObj (json_entries kvs)) k = to_json (get_member (JObj kvs) k)"
    by (rule get_member_json_entries [OF d])
  also have "\<dots> = get_member (JObj kvs) k"
    by (rule to_json_prim [OF flat_member_prim [OF assms]])
  finally show ?thesis .
qed


section \<open>The invariant of the store\<close>

lemma saveState_fields [simp]:
  "hasStorage (saveState st) = hasStorage st"
  "shares_flmm (saveState st) = shares_flmm st"
  "shares_qa (saveState st) = shares_qa st"
  "shares_evaluation (saveState st) = shares_evaluation st"
  "module_defaults (saveState st) = module_defaults st"
  by (simp_all add: saveState_def notify_def split: option.splits)

lemma localStorage_saveState:
  "localStorage (saveState st) =
     (if hasStorage st \<and> writable (localStorage st)
      then (localStorage st)\<lparr>items :=
             AList.update STORAGE_KEY (JSON_stringify (state_value (state st)))
               (items (localStorage st))\<rparr>
      else localStorage st)"
  by (simp add: saveState_def notify_def setItem_def)

lemma stored_ok_saveState:
  "shape (state st) \<Longrightarrow> stored_ok (localStorage st) \<Longrightarrow> stored_ok (localStorage (saveState st))"
  by (auto simp: localStorage_saveState stored_ok_def AList.update_conv')

lemma store_inv_saveState:
  assumes "hasStorage st" and "\<not> shares_flmm st" and "\<not> shares_qa st"
    and "\<not> shares_evaluation st" and "module_defaults st = defaultState"
    and "shape (state st)" and "stored_ok (localStorage st)"
  shows "store_inv (saveState st)"
  using assms by (simp add: store_inv_def stored_ok_saveState)

lemma store_inv_modify_flmm:
  "store_inv st \<Longrightarrow> flat (f (flmm (state st))) \<Longrightarrow> store_inv (saveState (modify_flmm f st))"
  by (rule store_inv_saveState) (simp_all add: store_inv_def modify_flmm_def shape_def)

lemma store_inv_modify_qa:
  "store_inv st \<Longrightarrow> shape_qa (f (qa (state st))) \<Longrightarrow> store_inv (saveState (modify_qa f st))"
  by (rule store_inv_saveState) (simp_all add: store_inv_def modify_qa_def shape_def)

lemma store_inv_modify_evaluation:
  "store_inv st \<Longrightarrow> shape_evaluation (f (evaluation (state st))) \<Longrightarrow>
   store_inv (saveState (modify_evaluation f st))"
  by (rule store_inv_saveState) (simp_all add: store_inv_def modify_evaluation_def shape_def)

lemma store_inv_replace_flmm:
  "store_inv st \<Longrightarrow> flat v \<Longrightarrow> store_inv (saveState (replace_flmm v st))"
  by (rule store_inv_saveState) (simp_all add: store_inv_def replace_flmm_def shape_def)

lemma store_inv_replace_qa:
  "store_inv st \<Longrightarrow> shape_qa v \<Longrightarrow> store_inv (saveState (replace_qa v st))"
  by (rule store_inv_saveState) (simp_all add: store_inv_def replace_qa_def shape_def)

lemma store_inv_replace_evaluation:
  "store_inv st \<Longrightarrow> shape_evaluation v \<Longrightarrow> store_inv (saveState (replace_evaluation v st))"
  by (rule store_inv_saveState) (simp_all add: store_inv_def replace_evaluation_def shape_def)

subsection \<open>The defaults\<close>

lemma flat_defaultQAParams: "flat defaultQAParams"
  by (simp add: flat_def defaultQAParams_def)

lemma flat_defaultEvaluationParams: "flat defaultEvaluationParams"
  by (simp add: flat_def defaultEvaluationParams_def)

lemma spread_copy: "distinct (map fst kvs) \<Longrightarrow> spread [] (JObj kvs) = kvs"
  by (simp add: spread_def assign_Nil_distinct)

lemma copy_defaultQAParams: "spread [] (JObj defaultQAParams) = defaultQAParams"
  using flat_defaultQAParams by (simp add: spread_copy flat_def)

lemma copy_defaultEvaluationParams: "spread [] (JObj defaultEvaluationParams) = defaultEvaluationParams"
  using flat_defaultEvaluationParams by (simp add: spread_copy flat_def)

lemma defaultState_sections:
  "flmm defaultState = [(''processCompleted'', JBool False)]"
  "qa defaultState =
     [(''processCompleted'', JBool False), (''step'', JNum 0), (''params'', JObj defaultQAParams)]"
  "evaluation defaultState =
     [(''workflowCompleted'', JBool False), (''stages'', JObj createDefaultEvaluationStages),
      (''params'', JObj defaultEvaluationParams)]"
  by (simp_all add: defaultState_def copy_defaultQAParams copy_defaultEvaluationParams)

lemma flat_default_stage: "default_stage k l s = JObj fs \<Longrightarrow> flat fs"
  by (auto simp: default_stage_def flat_def)

lemma shape_stages_default: "shape_stages createDefaultEvaluationStages"
  by (auto simp: shape_stages_def createDefaultEvaluationStages_def default_stage_def flat_def)

lemma default_stage_member:
  "k \<in> set validKeys \<Longrightarrow>
   \<exists>fs. get_member (JObj createDefaultEvaluationStages) k = JObj fs \<and> flat fs"
  by (auto simp: validKeys_def createDefaultEvaluationStages_def default_stage_def flat_def)

lemma shape_fresh_evaluation: "shape_evaluation fresh_evaluation"
  using flat_defaultEvaluationParams shape_stages_default
  by (simp add: shape_evaluation_def fresh_evaluation_def copy_defaultEvaluationParams)

lemma fallbackState_default:
  "fallbackState defaultState =
     \<lparr>flmm = [(''processCompleted'', JBool False)],
      qa = [(''processCompleted'', JBool False), (''step'', JNum 0), (''params'', JObj defaultQAParams)],
      evaluation = [(''workflowCompleted'', JBool False), (''evaluationId'', Undefined),
                    (''stages'', JObj createDefaultEvaluationStages),
                    (''params'', JObj defaultEvaluationParams)]\<rparr>"
  by (simp add: fallbackState_def defaultState_sections spread_copy copy_defaultEvaluationParams)

lemma shape_fallback: "shape (fallbackState defaultState)"
  using flat_defaultQAParams flat_defaultEvaluationParams shape_stages_default
  by (simp add: fallbackState_default shape_def flat_def shape_qa_def shape_evaluation_def)


subsection \<open>The operations keep the invariant\<close>

lemma store_inv_shape:
  assumes "store_inv st"
  shows "flat (flmm (state st))" and "shape_qa (qa (state st))"
    and "shape_evaluation (evaluation (state st))"
  using assms by (simp_all add: store_inv_def shape_def)

lemma store_inv_ensure: "store_inv st \<Longrightarrow> ensureEvaluationStages st = st"
proof -
  assume inv: "store_inv st"
  from shape_evaluation_stages [OF store_inv_shape(3) [OF inv]]
  have "truthy (get_member (JObj (evaluation (state st))) ''stages'')" by auto
  moreover have "\<not> shares_evaluation st" using inv by (simp add: store_inv_def)
  ultimately show ?thesis
    by (simp add: ensureEvaluationStages_def modify_evaluation_def)
qed

lemma stage_member:
  assumes "shape_stages sobj"
  shows "get_member (JObj sobj) k = Undefined \<or> (\<exists>fs. get_member (JObj sobj) k = JObj fs \<and> flat fs)"
proof (cases "get_member (JObj sobj) k = Undefined")
  case True
  then show ?thesis by simp
next
  case False
  then have "(k, get_member (JObj sobj) k) \<in> set sobj"
    using get_member_in_set [of sobj k] by blast
  then have "get_member (JObj sobj) k \<in> snd ` set sobj" by force
  then show ?thesis using assms unfolding shape_stages_def by blast
qed

lemma shape_stages_update:
  "shape_stages sobj \<Longrightarrow> flat fs \<Longrightarrow> shape_stages (AList.update k (JObj fs) sobj)"
  unfolding shape_stages_def
  by (auto simp: AList.distinct_update dest!: subsetD [OF set_update_subset])

lemma stage_base:
  assumes "shape_stages sobj" and "k \<in> set validKeys"
  shows "\<exists>fs. or_else (get_member (JObj sobj) k) (get_member (JObj createDefaultEvaluationStages) k)
           = JObj fs \<and> flat fs"
  using stage_member [OF assms(1), of k] default_stage_member [OF assms(2)]
  by (auto simp: or_else_def)

lemma shape_stages_distinct: "shape_stages sobj \<Longrightarrow> distinct (map fst sobj)"
  by (simp add: shape_stages_def)

lemma store_inv_set_stages:
  assumes "store_inv st" and "shape_stages sobj"
  shows "store_inv (saveState (modify_evaluation (AList.update ''stages'' (JObj sobj)) st))"
  using assms
  by (intro store_inv_modify_evaluation shape_evaluation_update_stages store_inv_shape)

lemma store_inv_updateEvaluationStage:
  assumes "store_inv st" and "updateEvaluationStage k snapshot st = Some st'"
    and "finite_partial snapshot"
  shows "store_inv st'"
proof -
  from shape_evaluation_stages [OF store_inv_shape(3) [OF assms(1)]]
  obtain sobj where s: "current_stages st = JObj sobj" "shape_stages sobj"
    by (auto simp: current_stages_def)
  from stage_base [OF s(2) key_name_valid [of k]] obtain fs
    where b: "or_else (get_member (JObj sobj) (key_name k))
               (get_member (JObj createDefaultEvaluationStages) (key_name k)) = JObj fs" "flat fs"
    by blast
  define sobj' where "sobj' = AList.update (key_name k)
      (JObj (spread (spread [] (JObj fs)) (partial_obj snapshot))) sobj"
  have sh: "shape_stages sobj'"
    unfolding sobj'_def by (intro shape_stages_update s(2) flat_spread_partial b(2) assms(3))
  have "st' = saveState (modify_evaluation (AList.update ''stages'' (JObj sobj')) st)"
    using assms(2) s(1) b(1)
    by (simp add: updateEvaluationStage_def store_inv_ensure [OF assms(1)] Let_def sobj'_def
        spread_copy [OF shape_stages_distinct [OF sh [unfolded sobj'_def]]])
  then show ?thesis
    using store_inv_set_stages [OF assms(1) sh] by simp
qed

lemma bulk_entries_shape:
  "shape_stages sobj \<Longrightarrow> list_all (\<lambda>e. finite_partial (snd e)) smap \<Longrightarrow>
   \<exists>sobj'. bulk_entries smap (JObj sobj) = Some (JObj sobj') \<and> shape_stages sobj'"
proof (induction smap arbitrary: sobj)
  case Nil
  then show ?case by simp
next
  case (Cons e smap)
  obtain key snapshot where e: "e = (key, snapshot)" by (cases e)
  have fin: "finite_partial snapshot" and rest: "list_all (\<lambda>e. finite_partial (snd e)) smap"
    using Cons.prems(2) by (simp_all add: e)
  show ?case
  proof (cases "key \<in> set validKeys")
    case False
    then show ?thesis using Cons.IH [OF Cons.prems(1) rest] e by simp
  next
    case True
    define sobj1 where "sobj1 = (if \<not> truthy (get_member (JObj sobj) key)
        then AList.update key (get_member (JObj createDefaultEvaluationStages) key) sobj else sobj)"
    from default_stage_member [OF True] obtain ds
      where ds: "get_member (JObj createDefaultEvaluationStages) key = JObj ds" "flat ds" by blast
    have sh1: "shape_stages sobj1"
      unfolding sobj1_def using Cons.prems(1) ds by (simp add: shape_stages_update)
    have "\<exists>fs. get_member (JObj sobj1) key = JObj fs \<and> flat fs"
    proof (cases "truthy (get_member (JObj sobj) key)")
      case True
      then show ?thesis
        using stage_member [OF Cons.prems(1), of key] by (auto simp: sobj1_def)
    next
      case False
      then show ?thesis
        using ds by (simp add: sobj1_def AList.update_conv')
    qed
    then obtain fs where fs: "get_member (JObj sobj1) key = JObj fs" "flat fs" by blast
    define sobj2 where "sobj2 = AList.update key
        (JObj (spread (spread [] (JObj fs)) (partial_obj snapshot))) sobj1"
    have sh2: "shape_stages sobj2"
      unfolding sobj2_def by (intro shape_stages_update sh1 flat_spread_partial fs(2) fin)
    have "bulk_entries (e # smap) (JObj sobj) = bulk_entries smap (JObj sobj2)"
      using True fs(1) unfolding e sobj2_def sobj1_def by (simp add: Let_def)
    then show ?thesis
      using Cons.IH [OF sh2 rest] by simp
  qed
qed

lemma store_inv_bulkUpdateEvaluationStages:
  assumes "store_inv st" and "bulkUpdateEvaluationStages smap st = Some st'"
    and "list_all (\<lambda>e. finite_partial (snd e)) smap"
  shows "store_inv st'"
proof -
  from shape_evaluation_stages [OF store_inv_shape(3) [OF assms(1)]]
  obtain sobj where s: "current_stages st = JObj sobj" "shape_stages sobj"
    by (auto simp: current_stages_def)
  from bulk_entries_shape [OF s(2) assms(3)] obtain sobj'
    where b: "bulk_entries smap (JObj sobj) = Some (JObj sobj')" "shape_stages sobj'"
    by blast
  have "st' = saveState (modify_evaluation (AList.update ''stages'' (JObj sobj')) st)"
    using assms(2) s(1) b
    by (simp add: bulkUpdateEvaluationStages_def store_inv_ensure [OF assms(1)]
        spread_copy [OF shape_stages_distinct [OF b(2)]])
  then show ?thesis
    using store_inv_set_stages [OF assms(1) b(2)] by simp
qed

lemma json_prim_number:
  "finite_op (SetQAStep n) \<Longrightarrow> json_prim (number_val n) \<and> number_val n \<noteq> Null"
  by (cases n) simp_all

lemma store_inv_call:
  assumes "store_inv st" and "call c st = Some st'" and "finite_op c"
  shows "store_inv st'"
proof (cases c)
  case (SetFLMMProcessCompleted i)
  then show ?thesis
    using assms
    by (auto simp: setFLMMProcessCompleted_def
        intro!: store_inv_modify_flmm flat_update store_inv_shape)
next
  case ResetFLMM
  then show ?thesis
    using assms by (auto simp: resetFLMM_def flat_def intro!: store_inv_replace_flmm)
next
  case (SetQAProcessCompleted i)
  then show ?thesis
    using assms
    by (auto simp: setQAProcessCompleted_def
        intro!: store_inv_modify_qa shape_qa_update store_inv_shape)
next
  case (SetQAGenerateTaskId i)
  then show ?thesis
    using assms
    by (auto simp: setQAGenerateTaskId_def
        intro!: store_inv_modify_qa shape_qa_update store_inv_shape)
next
  case (SetQAEvaluateTaskId i)
  then show ?thesis
    using assms
    by (auto simp: setQAEvaluateTaskId_def
        intro!: store_inv_modify_qa shape_qa_update store_inv_shape)
next
  case (SetQAStep n)
  have "shape_qa (AList.update ''step'' (number_val n) (qa (state st)))"
    using json_prim_number [of n] assms(3) SetQAStep
    by (intro shape_qa_update store_inv_shape(2) [OF assms(1)]) simp_all
  then show ?thesis
    using assms(2) SetQAStep store_inv_modify_qa [OF assms(1)]
    by (auto simp: setQAStep_def)
next
  case (SaveQAParams ps)
  from shape_qa_params [OF store_inv_shape(2) [OF assms(1)]] obtain p
    where p: "get_member (JObj (qa (state st))) ''params'' = JObj p" "flat p" by blast
  have "shape_qa (AList.update ''params''
      (JObj (spread (spread [] (JObj p)) (partial_obj ps))) (qa (state st)))"
    using assms(3) SaveQAParams
    by (intro shape_qa_update_params store_inv_shape(2) [OF assms(1)] flat_spread_partial p(2))
      simp
  then show ?thesis
    using assms SaveQAParams p(1) store_inv_modify_qa [OF assms(1)]
    by (auto simp: saveQAParams_def)
next
  case ResetQA
  have "shape_qa [(''processCompleted'', JBool False), (''step'', Undefined),
      (''params'', JObj defaultQAParams)]"
    using flat_defaultQAParams by (simp add: shape_qa_def)
  then show ?thesis
    using assms ResetQA
    by (auto simp: resetQA_def copy_defaultQAParams intro!: store_inv_replace_qa)
next
  case (SetEvaluationWorkflowCompleted i)
  then show ?thesis
    using assms
    by (auto simp: setEvaluationWorkflowCompleted_def
        intro!: store_inv_modify_evaluation shape_evaluation_update store_inv_shape)
next
  case ResetEvaluation
  then show ?thesis
    using assms shape_fresh_evaluation
    by (auto simp: resetEvaluation_def intro!: store_inv_replace_evaluation)
next
  case (SaveEvaluationParams ps)
  from shape_evaluation_params [OF store_inv_shape(3) [OF assms(1)]] obtain p
    where p: "get_member (JObj (evaluation (state st))) ''params'' = JObj p" "flat p" by blast
  have "shape_evaluation (AList.update ''params''
      (JObj (spread (spread [] (JObj p)) (partial_obj ps))) (evaluation (state st)))"
    using assms(3) SaveEvaluationParams
    by (intro shape_evaluation_update_params store_inv_shape(3) [OF assms(1)]
        flat_spread_partial p(2)) simp
  then show ?thesis
    using assms SaveEvaluationParams p(1) store_inv_modify_evaluation [OF assms(1)]
    by (auto simp: saveEvaluationParams_def)
next
  case (UpdateEvaluationStage k snapshot)
  then show ?thesis using assms store_inv_updateEvaluationStage by simp
next
  case (BulkUpdateEvaluationStages smap)
  then show ?thesis using assms store_inv_bulkUpdateEvaluationStages by simp
next
  case ResetEvaluationStages
  then show ?thesis
    using assms store_inv_set_stages [OF assms(1) shape_stages_default]
    by (auto simp: resetEvaluationStages_def)
next
  case ResetAll
  have "store_inv (saveState (st\<lparr>state := fallbackState defaultState, shares_flmm := False,
      shares_qa := False, shares_evaluation := False\<rparr>))"
    using assms(1) shape_fallback
    by (intro store_inv_saveState) (simp_all add: store_inv_def)
  then show ?thesis
    using assms ResetAll by (auto simp: resetAll_def store_inv_def)
qed


section \<open>Reloading a saved state\<close>

lemma flat_json_entries: "flat p \<Longrightarrow> flat (json_entries p)"
proof -
  assume f: "flat p"
  have "json_prim (snd x)" if "x \<in> set (json_entries p)" for x
  proof -
    from json_entries_origin [OF that] obtain v where v: "(fst x, v) \<in> set p" "snd x = to_json v"
      by blast
    then have "v \<in> snd ` set p" by force
    then have "json_prim v" using f unfolding flat_def by blast
    then show ?thesis using v(2) by (simp add: to_json_prim)
  qed
  then show ?thesis
    using f distinct_json_entries [of p] by (auto simp: flat_def)
qed

lemma shape_stages_json_entries: "shape_stages sobj \<Longrightarrow> shape_stages (json_entries sobj)"
proof -
  assume sh: "shape_stages sobj"
  have "\<exists>fs. snd x = JObj fs \<and> flat fs" if "x \<in> set (json_entries sobj)" for x
  proof -
    from json_entries_origin [OF that] obtain v
      where v: "(fst x, v) \<in> set sobj" "snd x = to_json v" by blast
    then have "v \<in> snd ` set sobj" by force
    then obtain fs where "v = JObj fs" "flat fs" using sh unfolding shape_stages_def by blast
    then show ?thesis using v(2) by (simp add: to_json_JObj flat_json_entries del: to_json.simps)
  qed
  then show ?thesis
    using sh distinct_json_entries [of sobj] by (auto simp: shape_stages_def)
qed

lemma member_is_Some: "get_member (JObj kvs) k = JObj p \<Longrightarrow> map_of kvs k = Some (JObj p)"
  by (cases "map_of kvs k") simp_all

lemma shape_qa_json_entries: "shape_qa q \<Longrightarrow> shape_qa (json_entries q)"
proof -
  assume sh: "shape_qa q"
  then have d: "distinct (map fst q)" by (simp add: shape_qa_def)
  have orig: "snd x = v" if "x \<in> set (json_entries q)" "fst x \<noteq> ''params''"
    "(fst x, v) \<in> set q" "snd x = to_json v" for x v
  proof -
    have "json_prim v" using sh that(2,3) unfolding shape_qa_def by force
    then show ?thesis using that(4) by (simp add: to_json_prim)
  qed
  have prim: "json_prim (snd x)" if "x \<in> set (json_entries q)" "fst x \<noteq> ''params''" for x
  proof -
    from json_entries_origin [OF that(1)] obtain v
      where v: "(fst x, v) \<in> set q" "snd x = to_json v" by blast
    have "json_prim v" using sh that(2) v(1) unfolding shape_qa_def by force
    then show ?thesis using v(2) by (simp add: to_json_prim)
  qed
  have step: "(''step'', Null) \<notin> set (json_entries q)"
  proof
    assume a: "(''step'', Null) \<in> set (json_entries q)"
    from json_entries_origin [OF a] obtain v where v: "(''step'', v) \<in> set q" "Null = to_json v"
      by auto
    have "json_prim v" using sh v(1) unfolding shape_qa_def by force
    then have "v = Null" using v(2) by (simp add: to_json_prim)
    then show False using sh v(1) by (simp add: shape_qa_def)
  qed
  from shape_qa_params [OF sh] obtain p
    where p: "get_member (JObj q) ''params'' = JObj p" "flat p" by blast
  have "get_member (JObj (json_entries q)) ''params'' = JObj (json_entries p)"
    by (simp add: get_member_json_entries [OF d] p(1) to_json_JObj del: to_json.simps get_member.simps)
  then have "map_of (json_entries q) ''params'' = Some (JObj (json_entries p))"
    by (rule member_is_Some)
  then show ?thesis
    using distinct_json_entries [OF d] prim step flat_json_entries [OF p(2)]
    by (auto simp: shape_qa_def)
qed

lemma shape_evaluation_json_entries: "shape_evaluation e \<Longrightarrow> shape_evaluation (json_entries e)"
proof -
  assume sh: "shape_evaluation e"
  then have d: "distinct (map fst e)" by (simp add: shape_evaluation_def)
  have prim: "json_prim (snd x)"
    if "x \<in> set (json_entries e)" "fst x \<noteq> ''params''" "fst x \<noteq> ''stages''" for x
  proof -
    from json_entries_origin [OF that(1)] obtain v
      where v: "(fst x, v) \<in> set e" "snd x = to_json v" by blast
    have "json_prim v" using sh that(2,3) v(1) unfolding shape_evaluation_def by force
    then show ?thesis using v(2) by (simp add: to_json_prim)
  qed
  from shape_evaluation_params [OF sh] obtain p
    where p: "get_member (JObj e) ''params'' = JObj p" "flat p" by blast
  from shape_evaluation_stages [OF sh] obtain sobj
    where s: "get_member (JObj e) ''stages'' = JObj sobj" "shape_stages sobj" by blast
  have "get_member (JObj (json_entries e)) ''params'' = JObj (json_entries p)"
    by (simp add: get_member_json_entries [OF d] p(1) to_json_JObj del: to_json.simps get_member.simps)
  then have mp: "map_of (json_entries e) ''params'' = Some (JObj (json_entries p))"
    by (rule member_is_Some)
  have "get_member (JObj (json_entries e)) ''stages'' = JObj (json_entries sobj)"
    by (simp add: get_member_json_entries [OF d] s(1) to_json_JObj del: to_json.simps get_member.simps)
  then have ms: "map_of (json_entries e) ''stages'' = Some (JObj (json_entries sobj))"
    by (rule member_is_Some)
  show ?thesis
    using distinct_json_entries [OF d] prim mp ms flat_json_entries [OF p(2)]
      shape_stages_json_entries [OF s(2)]
    by (auto simp: shape_evaluation_def)
qed

lemma map_of_assign_distinct:
  "distinct (map fst src) \<Longrightarrow>
   map_of (assign t src) k = (case map_of src k of Some v \<Rightarrow> Some v | None \<Rightarrow> map_of t k)"
  by (simp add: map_of_assign map_of_rev_distinct)

lemma shape_qa_assign:
  assumes "shape_qa t" and "shape_qa src"
  shows "shape_qa (assign t src)"
proof -
  have d: "distinct (map fst src)" using assms(2) by (simp add: shape_qa_def)
  from assms(2) obtain p where p: "map_of src ''params'' = Some (JObj p)" "flat p"
    by (auto simp: shape_qa_def)
  have "map_of (assign t src) ''params'' = Some (JObj p)"
    by (simp add: map_of_assign_distinct [OF d] p(1))
  moreover have "distinct (map fst (assign t src))"
    using assms(1) by (simp add: shape_qa_def distinct_assign)
  moreover have "\<forall>kv\<in>set (assign t src). fst kv \<noteq> ''params'' \<longrightarrow> json_prim (snd kv)"
    using assms set_assign_subset [of t src] unfolding shape_qa_def by blast
  moreover have "(''step'', Null) \<notin> set (assign t src)"
    using assms set_assign_subset [of t src] unfolding shape_qa_def by blast
  ultimately show ?thesis
    using p(2) by (auto simp: shape_qa_def)
qed

lemma shape_evaluation_assign:
  assumes "shape_evaluation t" and "shape_evaluation src"
  shows "shape_evaluation (assign t src)"
proof -
  have d: "distinct (map fst src)" using assms(2) by (simp add: shape_evaluation_def)
  from assms(2) obtain p where p: "map_of src ''params'' = Some (JObj p)" "flat p"
    by (auto simp: shape_evaluation_def)
  from assms(2) obtain sobj where s: "map_of src ''stages'' = Some (JObj sobj)" "shape_stages sobj"
    by (auto simp: shape_evaluation_def)
  have "map_of (assign t src) ''params'' = Some (JObj p)"
    by (simp add: map_of_assign_distinct [OF d] p(1))
  moreover have "map_of (assign t src) ''stages'' = Some (JObj sobj)"
    by (simp add: map_of_assign_distinct [OF d] s(1))
  moreover have "distinct (map fst (assign t src))"
    using assms(1) by (simp add: shape_evaluation_def distinct_assign)
  moreover have "\<forall>kv\<in>set (assign t src).
      fst kv \<noteq> ''params'' \<and> fst kv \<noteq> ''stages'' \<longrightarrow> json_prim (snd kv)"
    using assms set_assign_subset [of t src] unfolding shape_evaluation_def by blast
  ultimately show ?thesis
    using p(2) s(2) by (auto simp: shape_evaluation_def)
qed


lemma blob_members:
  "get_member (to_json (state_value s)) ''flmm'' = JObj (json_entries (flmm s))"
  "get_member (to_json (state_value s)) ''qa'' = JObj (json_entries (qa s))"
  "get_member (to_json (state_value s)) ''evaluation'' = JObj (json_entries (evaluation s))"
  by (simp_all add: state_value_def to_json_JObj json_entries_Cons del: to_json.simps)

lemma blob_not_nullish: "\<not> nullish (to_json (state_value s))"
  by (simp add: state_value_def to_json_JObj nullish_def del: to_json.simps)

lemma merged_flmm:
  "flmm (mergedState d (to_json (state_value s)))
     = assign (assign [] (flmm d)) (json_entries (flmm s))"
  by (simp add: mergedState_def blob_members Let_def spread_def or_else_def
      del: to_json.simps get_member.simps)

lemma merged_qa:
  assumes "get_member (JObj (json_entries (qa s))) ''params'' = JObj P"
  shows "qa (mergedState d (to_json (state_value s)))
     = AList.update ''params'' (JObj (assign (assign [] defaultQAParams) P))
         (AList.update ''step''
            (coalesce (get_member (JObj (json_entries (qa s))) ''step'') (get_member (JObj (qa d)) ''step''))
            (assign (assign [] (qa d)) (json_entries (qa s))))"
  by (simp add: mergedState_def blob_members Let_def spread_def or_else_def opt_member_def
      nullish_def assms del: to_json.simps get_member.simps)

lemma merged_evaluation:
  assumes "get_member (JObj (json_entries (evaluation s))) ''params'' = JObj P"
    and "get_member (JObj (json_entries (evaluation s))) ''stages'' = JObj S"
  shows "evaluation (mergedState d (to_json (state_value s)))
     = AList.update ''params'' (JObj (assign (assign [] defaultEvaluationParams) P))
         (AList.update ''stages'' (JObj S)
            (assign (assign [] (evaluation d)) (json_entries (evaluation s))))"
  by (simp add: mergedState_def blob_members Let_def spread_def or_else_def opt_member_def
      nullish_def assms del: to_json.simps get_member.simps)

lemma json_params:
  assumes "distinct (map fst q)" and "get_member (JObj q) ''params'' = JObj p"
  shows "get_member (JObj (json_entries q)) ''params'' = JObj (json_entries p)"
  by (simp add: get_member_json_entries [OF assms(1)] assms(2) to_json_JObj
      del: to_json.simps get_member.simps)

lemma json_stages:
  assumes "distinct (map fst e)" and "get_member (JObj e) ''stages'' = JObj sobj"
  shows "get_member (JObj (json_entries e)) ''stages'' = JObj (json_entries sobj)"
  by (simp add: get_member_json_entries [OF assms(1)] assms(2) to_json_JObj
      del: to_json.simps get_member.simps)

lemma shape_qa_default: "shape_qa (qa defaultState)"
  using flat_defaultQAParams by (simp add: defaultState_sections shape_qa_def)

lemma shape_evaluation_default: "shape_evaluation (evaluation defaultState)"
  using flat_defaultEvaluationParams shape_stages_default
  by (simp add: defaultState_sections shape_evaluation_def)

lemma flat_flmm_default: "flat (flmm defaultState)"
  by (simp add: defaultState_sections flat_def)

lemma assign_Nil_default:
  "assign [] (flmm defaultState) = flmm defaultState"
  "assign [] (qa defaultState) = qa defaultState"
  "assign [] (evaluation defaultState) = evaluation defaultState"
  "assign [] defaultQAParams = defaultQAParams"
  "assign [] defaultEvaluationParams = defaultEvaluationParams"
  using flat_flmm_default shape_qa_default shape_evaluation_default flat_defaultQAParams
    flat_defaultEvaluationParams
  by (simp_all add: assign_Nil_distinct flat_def shape_qa_def shape_evaluation_def)

lemma shape_qa_step:
  assumes "shape_qa q"
  shows "get_member (JObj q) ''step'' \<noteq> Null"
proof
  assume n: "get_member (JObj q) ''step'' = Null"
  have "get_member (JObj q) ''step'' = Undefined
      \<or> (''step'', get_member (JObj q) ''step'') \<in> set q"
    by (rule get_member_in_set)
  then have "(''step'', Null) \<in> set q"
    unfolding n by simp
  then show False
    using assms by (simp add: shape_qa_def)
qed

lemma shape_qa_prim:
  assumes "shape_qa q" and "(k, v) \<in> set q" and "k \<noteq> ''params''"
  shows "json_prim v"
proof -
  from assms(1) have "\<forall>kv\<in>set q. fst kv \<noteq> ''params'' \<longrightarrow> json_prim (snd kv)"
    unfolding shape_qa_def by blast
  from bspec [OF this assms(2)] assms(3) show ?thesis by simp
qed

lemma shape_evaluation_prim:
  assumes "shape_evaluation e" and "(k, v) \<in> set e" and "k \<noteq> ''params''" and "k \<noteq> ''stages''"
  shows "json_prim v"
proof -
  from assms(1) have "\<forall>kv\<in>set e. fst kv \<noteq> ''params'' \<and> fst kv \<noteq> ''stages'' \<longrightarrow> json_prim (snd kv)"
    unfolding shape_evaluation_def by blast
  from bspec [OF this assms(2)] assms(3,4) show ?thesis by simp
qed

lemma shape_qa_member_prim:
  assumes "shape_qa q" and "k \<noteq> ''params''"
  shows "json_prim (get_member (JObj q) k)"
proof (cases "get_member (JObj q) k = Undefined")
  case True
  then show ?thesis by simp
next
  case False
  then have "(k, get_member (JObj q) k) \<in> set q"
    using get_member_in_set [of q k] by blast
  then show ?thesis by (rule shape_qa_prim [OF assms(1) _ assms(2)])
qed

lemma shape_evaluation_member_prim:
  assumes "shape_evaluation e" and "k \<noteq> ''params''" and "k \<noteq> ''stages''"
  shows "json_prim (get_member (JObj e) k)"
proof (cases "get_member (JObj e) k = Undefined")
  case True
  then show ?thesis by simp
next
  case False
  then have "(k, get_member (JObj e) k) \<in> set e"
    using get_member_in_set [of e k] by blast
  then show ?thesis by (rule shape_evaluation_prim [OF assms(1) _ assms(2,3)])
qed

lemma coalesce_step:
  assumes "v \<noteq> Null" and "json_prim v"
  shows "json_prim (coalesce v (JNum 0))" and "coalesce v (JNum 0) \<noteq> Null"
    and "coalesce v (JNum 0) = (if v = Undefined then JNum 0 else v)"
  using assms by (auto simp: coalesce_def nullish_def)

text \<open>The state loaded from the blob of a state of the shape has the shape.\<close>

lemma shape_merged:
  assumes "shape s"
  shows "shape (mergedState defaultState (to_json (state_value s)))"
proof -
  let ?r = "mergedState defaultState (to_json (state_value s))"
  have f: "flat (flmm s)" and q: "shape_qa (qa s)" and e: "shape_evaluation (evaluation s)"
    using assms by (simp_all add: shape_def)
  have dq: "distinct (map fst (qa s))" using q by (simp add: shape_qa_def)
  have de: "distinct (map fst (evaluation s))" using e by (simp add: shape_evaluation_def)
  from shape_qa_params [OF q] obtain p
    where p: "get_member (JObj (qa s)) ''params'' = JObj p" "flat p" by blast
  from shape_evaluation_params [OF e] obtain pe
    where pe: "get_member (JObj (evaluation s)) ''params'' = JObj pe" "flat pe" by blast
  from shape_evaluation_stages [OF e] obtain sobj
    where so: "get_member (JObj (evaluation s)) ''stages'' = JObj sobj" "shape_stages sobj" by blast
  have "\<forall>v\<in>snd ` set (json_entries (flmm s)). json_prim v"
    using flat_json_entries [OF f] by (simp add: flat_def)
  then have "flat (flmm ?r)"
    unfolding merged_flmm assign_Nil_default
    by (intro flat_assign flat_flmm_default)
  moreover have "shape_qa (qa ?r)"
  proof -
    let ?v = "get_member (JObj (json_entries (qa s))) ''step''"
    have v: "?v = get_member (JObj (qa s)) ''step''"
      using to_json_prim [OF shape_qa_member_prim [OF q, of "''step''"]]
      by (simp add: get_member_json_entries [OF dq] del: get_member.simps)
    have base: "shape_qa (assign (qa defaultState) (json_entries (qa s)))"
      by (intro shape_qa_assign shape_qa_default shape_qa_json_entries q)
    have step: "get_member (JObj (qa defaultState)) ''step'' = JNum 0"
      by (simp add: defaultState_sections)
    have c: "json_prim (coalesce ?v (JNum 0))" "coalesce ?v (JNum 0) \<noteq> Null"
      unfolding v
      using coalesce_step [OF shape_qa_step [OF q] shape_qa_member_prim [OF q, of "''step''"]]
      by simp_all
    have s1: "shape_qa (AList.update ''step'' (coalesce ?v (JNum 0))
        (assign (qa defaultState) (json_entries (qa s))))"
      using c(2) by (intro shape_qa_update base c(1)) simp_all
    have "\<forall>v\<in>snd ` set (json_entries p). json_prim v"
      using flat_json_entries [OF p(2)] by (simp add: flat_def)
    then have s2: "flat (assign defaultQAParams (json_entries p))"
      by (intro flat_assign flat_defaultQAParams)
    show ?thesis
      unfolding merged_qa [OF json_params [OF dq p(1)]] assign_Nil_default step
      by (rule shape_qa_update_params [OF s1 s2])
  qed
  moreover have "shape_evaluation (evaluation ?r)"
  proof -
    have base: "shape_evaluation (assign (evaluation defaultState) (json_entries (evaluation s)))"
      by (intro shape_evaluation_assign shape_evaluation_default shape_evaluation_json_entries e)
    have s1: "shape_evaluation (AList.update ''stages'' (JObj (json_entries sobj))
        (assign (evaluation defaultState) (json_entries (evaluation s))))"
      by (intro shape_evaluation_update_stages base shape_stages_json_entries so(2))
    have "\<forall>v\<in>snd ` set (json_entries pe). json_prim v"
      using flat_json_entries [OF pe(2)] by (simp add: flat_def)
    then have s2: "flat (assign defaultEvaluationParams (json_entries pe))"
      by (intro flat_assign flat_defaultEvaluationParams)
    show ?thesis
      unfolding merged_evaluation [OF json_params [OF de pe(1)] json_stages [OF de so(1)]]
        assign_Nil_default
      by (rule shape_evaluation_update_params [OF s1 s2])
  qed
  ultimately show ?thesis by (simp add: shape_def)
qed


lemma json_qa_member:
  assumes "shape_qa q" and "k \<noteq> ''params''"
  shows "get_member (JObj (json_entries q)) k = get_member (JObj q) k"
proof -
  have d: "distinct (map fst q)" using assms(1) by (simp add: shape_qa_def)
  have "get_member (JObj (json_entries q)) k = to_json (get_member (JObj q) k)"
    by (rule get_member_json_entries [OF d])
  also have "\<dots> = get_member (JObj q) k"
    by (rule to_json_prim [OF shape_qa_member_prim [OF assms]])
  finally show ?thesis .
qed

lemma json_evaluation_member:
  assumes "shape_evaluation e" and "k \<noteq> ''params''" and "k \<noteq> ''stages''"
  shows "get_member (JObj (json_entries e)) k = get_member (JObj e) k"
proof -
  have d: "distinct (map fst e)" using assms(1) by (simp add: shape_evaluation_def)
  have "get_member (JObj (json_entries e)) k = to_json (get_member (JObj e) k)"
    by (rule get_member_json_entries [OF d])
  also have "\<dots> = get_member (JObj e) k"
    by (rule to_json_prim [OF shape_evaluation_member_prim [OF assms]])
  finally show ?thesis .
qed

lemma fills_merge:
  assumes "distinct (map fst d)" and "flat p"
  shows "fills d (JObj p) (JObj (assign (assign [] d) (json_entries p))) k"
proof -
  have "distinct (map fst (json_entries p))"
    using assms(2) by (intro distinct_json_entries) (simp add: flat_def)
  from get_member_merge [OF assms(1) this json_entries_defined, of k]
  show ?thesis
    unfolding fills_def json_flat_member [OF assms(2)] .
qed

lemma json_stage_member:
  assumes "shape_stages sobj"
  shows "get_member (get_member (JObj (json_entries sobj)) sk) f
       = get_member (get_member (JObj sobj) sk) f"
proof -
  have d: "distinct (map fst sobj)" using assms by (simp add: shape_stages_def)
  have m: "get_member (JObj (json_entries sobj)) sk = to_json (get_member (JObj sobj) sk)"
    by (rule get_member_json_entries [OF d])
  from stage_member [OF assms, of sk] show ?thesis
  proof
    assume "get_member (JObj sobj) sk = Undefined"
    then show ?thesis unfolding m by simp
  next
    assume "\<exists>fs. get_member (JObj sobj) sk = JObj fs \<and> flat fs"
    then obtain fs where fs: "get_member (JObj sobj) sk = JObj fs" "flat fs" by blast
    show ?thesis
      unfolding m fs(1) to_json_JObj by (rule json_flat_member [OF fs(2)])
  qed
qed

lemma reload_equiv_merged:
  assumes "shape s"
  shows "reload_equiv s (mergedState defaultState (to_json (state_value s)))"
proof -
  let ?r = "mergedState defaultState (to_json (state_value s))"
  have f: "flat (flmm s)" and q: "shape_qa (qa s)" and e: "shape_evaluation (evaluation s)"
    using assms by (simp_all add: shape_def)
  have dq: "distinct (map fst (qa s))" using q by (simp add: shape_qa_def)
  have de: "distinct (map fst (evaluation s))" using e by (simp add: shape_evaluation_def)
  have ddq: "distinct (map fst (qa defaultState))"
    using shape_qa_default by (simp add: shape_qa_def)
  have dde: "distinct (map fst (evaluation defaultState))"
    using shape_evaluation_default by (simp add: shape_evaluation_def)
  from shape_qa_params [OF q] obtain p
    where p: "get_member (JObj (qa s)) ''params'' = JObj p" "flat p" by blast
  from shape_evaluation_params [OF e] obtain pe
    where pe: "get_member (JObj (evaluation s)) ''params'' = JObj pe" "flat pe" by blast
  from shape_evaluation_stages [OF e] obtain sobj
    where so: "get_member (JObj (evaluation s)) ''stages'' = JObj sobj" "shape_stages sobj" by blast
  note mq = merged_qa [OF json_params [OF dq p(1)], of defaultState]
  note me = merged_evaluation [OF json_params [OF de pe(1)] json_stages [OF de so(1)], of defaultState]
  have c1: "fills (flmm defaultState) (JObj (flmm s)) (JObj (flmm ?r)) k" for k
    unfolding merged_flmm using flat_flmm_default f by (intro fills_merge) (simp add: flat_def)
  have c2: "fills (qa defaultState) (JObj (qa s)) (JObj (qa ?r)) k" if k: "k \<noteq> ''params''" for k
  proof (cases "k = ''step''")
    case True
    have v: "get_member (JObj (json_entries (qa s))) ''step'' = get_member (JObj (qa s)) ''step''"
      by (rule json_qa_member [OF q]) simp
    have "get_member (JObj (qa ?r)) ''step''
        = coalesce (get_member (JObj (qa s)) ''step'') (get_member (JObj (qa defaultState)) ''step'')"
      unfolding mq v by (simp add: get_member_update del: get_member.simps)
    then show ?thesis
      using shape_qa_step [OF q] unfolding True fills_def coalesce_def nullish_def by simp
  next
    case False
    have "distinct (map fst (json_entries (qa s)))"
      by (rule distinct_json_entries [OF dq])
    from get_member_merge [OF ddq this json_entries_defined, of k]
    have "get_member (JObj (assign (assign [] (qa defaultState)) (json_entries (qa s)))) k
        = (if get_member (JObj (qa s)) k = Undefined then get_member (JObj (qa defaultState)) k
           else get_member (JObj (qa s)) k)"
      unfolding json_qa_member [OF q k] .
    moreover have "get_member (JObj (qa ?r)) k
        = get_member (JObj (assign (assign [] (qa defaultState)) (json_entries (qa s)))) k"
      unfolding mq using k False by (simp add: get_member_update del: get_member.simps)
    ultimately show ?thesis
      unfolding fills_def by simp
  qed
  have c3: "fills defaultQAParams (get_member (JObj (qa s)) ''params'')
      (get_member (JObj (qa ?r)) ''params'') k" for k
  proof -
    have "get_member (JObj (qa ?r)) ''params''
        = JObj (assign (assign [] defaultQAParams) (json_entries p))"
      unfolding mq by (simp add: get_member_update del: get_member.simps)
    then show ?thesis
      unfolding p(1) using flat_defaultQAParams p(2) by (simp add: fills_merge flat_def)
  qed
  have c4: "fills (evaluation defaultState) (JObj (evaluation s)) (JObj (evaluation ?r)) k"
    if k: "k \<noteq> ''params''" "k \<noteq> ''stages''" for k
  proof -
    have "distinct (map fst (json_entries (evaluation s)))"
      by (rule distinct_json_entries [OF de])
    from get_member_merge [OF dde this json_entries_defined, of k]
    have "get_member (JObj (assign (assign [] (evaluation defaultState)) (json_entries (evaluation s)))) k
        = (if get_member (JObj (evaluation s)) k = Undefined
           then get_member (JObj (evaluation defaultState)) k
           else get_member (JObj (evaluation s)) k)"
      unfolding json_evaluation_member [OF e k] .
    moreover have "get_member (JObj (evaluation ?r)) k
        = get_member (JObj (assign (assign [] (evaluation defaultState))
            (json_entries (evaluation s)))) k"
      unfolding me using k by (simp add: get_member_update del: get_member.simps)
    ultimately show ?thesis
      unfolding fills_def by simp
  qed
  have c5: "fills defaultEvaluationParams (get_member (JObj (evaluation s)) ''params'')
      (get_member (JObj (evaluation ?r)) ''params'') k" for k
  proof -
    have "get_member (JObj (evaluation ?r)) ''params''
        = JObj (assign (assign [] defaultEvaluationParams) (json_entries pe))"
      unfolding me by (simp add: get_member_update del: get_member.simps)
    then show ?thesis
      unfolding pe(1) using flat_defaultEvaluationParams pe(2) by (simp add: fills_merge flat_def)
  qed
  have c6: "get_member (get_member (get_member (JObj (evaluation ?r)) ''stages'') sk) f
      = get_member (get_member (get_member (JObj (evaluation s)) ''stages'') sk) f" for sk f
  proof -
    have "get_member (JObj (evaluation ?r)) ''stages'' = JObj (json_entries sobj)"
      unfolding me by (simp add: get_member_update del: get_member.simps)
    then show ?thesis
      unfolding so(1) using json_stage_member [OF so(2)] by simp
  qed
  show ?thesis
    unfolding reload_equiv_def using c1 c2 c3 c4 c5 c6 by blast
qed



section \<open>Sessions\<close>

lemma stored_ok_nothing: "map_of (items stg) STORAGE_KEY = None \<Longrightarrow> stored_ok stg"
  by (simp add: stored_ok_def)

lemma shape_loadState:
  assumes "stored_ok stg"
  shows "shape (loadState defaultState True stg)"
proof (cases "getItem stg STORAGE_KEY")
  case None
  then show ?thesis by (simp add: loadState_def shape_fallback)
next
  case (Some x)
  show ?thesis
  proof (cases x)
    case None
    then show ?thesis using Some by (simp add: loadState_def shape_fallback)
  next
    case (Some b)
    then have m: "map_of (items stg) STORAGE_KEY = Some b"
      using \<open>getItem stg STORAGE_KEY = Some x\<close> by (auto simp: getItem_def split: if_splits)
    then obtain s where s: "shape s" "b = JSON_stringify (state_value s)"
      using assms by (auto simp: stored_ok_def)
    show ?thesis
      using \<open>getItem stg STORAGE_KEY = Some x\<close> Some s shape_merged [OF s(1)]
      by (simp add: loadState_def JSON_stringify_def blob_not_nullish del: to_json.simps)
  qed
qed

lemma store_inv_new: "stored_ok stg \<Longrightarrow> store_inv (new_WorkflowStore True stg)"
  by (simp add: store_inv_def new_WorkflowStore_def shape_loadState)

lemma store_inv_reload: "store_inv st \<Longrightarrow> store_inv (reload st)"
  unfolding reload_def by (simp add: store_inv_def store_inv_new [unfolded store_inv_def])

lemma store_inv_run_session:
  "store_inv st \<Longrightarrow> list_all finite_event es \<Longrightarrow> store_inv (run_session es st)"
proof (induction es st rule: run_session.induct)
  case (1 st)
  then show ?case by simp
next
  case (2 c es st)
  have fin: "finite_op c" "list_all finite_event es"
    using "2.prems"(2) by simp_all
  have "store_inv (case call c st of Some st' \<Rightarrow> st' | None \<Rightarrow> st)"
  proof (cases "call c st")
    case None
    then show ?thesis using "2.prems"(1) by simp
  next
    case (Some st')
    have "store_inv st'"
      using "2.prems"(1) Some fin(1) by (rule store_inv_call)
    then show ?thesis using Some by simp
  qed
  from "2.IH" [OF this fin(2)] show ?case by simp
next
  case (3 es st)
  then show ?case by (simp add: store_inv_reload)
qed

subsection \<open>What the operations leave alone\<close>

lemma saveState_storage_flags [simp]:
  "readable (localStorage (saveState st)) = readable (localStorage st)"
  "writable (localStorage (saveState st)) = writable (localStorage st)"
  by (simp_all add: localStorage_saveState)

lemma modify_fields [simp]:
  "hasStorage (modify_flmm f st) = hasStorage st"
  "hasStorage (modify_qa f st) = hasStorage st"
  "hasStorage (modify_evaluation f st) = hasStorage st"
  "hasStorage (replace_flmm v st) = hasStorage st"
  "hasStorage (replace_qa v st) = hasStorage st"
  "hasStorage (replace_evaluation v st) = hasStorage st"
  "localStorage (modify_flmm f st) = localStorage st"
  "localStorage (modify_qa f st) = localStorage st"
  "localStorage (modify_evaluation f st) = localStorage st"
  "localStorage (replace_flmm v st) = localStorage st"
  "localStorage (replace_qa v st) = localStorage st"
  "localStorage (replace_evaluation v st) = localStorage st"
  by (simp_all add: modify_flmm_def modify_qa_def modify_evaluation_def replace_flmm_def
      replace_qa_def replace_evaluation_def)

text \<open>
  Every operation that returns ends with \<^verbatim>\<open>this.saveState()\<close>: it is \<open>saveState\<close> of a
  store with the same storage.
\<close>

lemma call_saves:
  assumes "call c st = Some st'"
  shows "\<exists>st1. st' = saveState st1 \<and> localStorage st1 = localStorage st
           \<and> hasStorage st1 = hasStorage st"
proof (cases c)
  case (UpdateEvaluationStage k snapshot)
  then show ?thesis
    using assms
    by (auto simp: updateEvaluationStage_def ensureEvaluationStages_def Let_def
        split: jsval.splits intro!: exI)
next
  case (BulkUpdateEvaluationStages smap)
  then show ?thesis
    using assms
    by (auto simp: bulkUpdateEvaluationStages_def ensureEvaluationStages_def Let_def
        split: option.splits intro!: exI)
next
  case ResetAll
  then show ?thesis
    using assms by (auto simp: resetAll_def intro!: exI)
qed (use assms in \<open>auto simp: setFLMMProcessCompleted_def resetFLMM_def
      setQAProcessCompleted_def setQAGenerateTaskId_def setQAEvaluateTaskId_def setQAStep_def
      saveQAParams_def resetQA_def setEvaluationWorkflowCompleted_def resetEvaluation_def
      saveEvaluationParams_def resetEvaluationStages_def intro!: exI\<close>)

lemma call_flags:
  assumes "call c st = Some st'"
  shows "hasStorage st' = hasStorage st"
    and "readable (localStorage st') = readable (localStorage st)"
    and "writable (localStorage st') = writable (localStorage st)"
  using call_saves [OF assms] by auto

lemma reload_flags [simp]:
  "hasStorage (reload st) = hasStorage st"
  "localStorage (reload st) = localStorage st"
  by (simp_all add: reload_def new_WorkflowStore_def)

lemma run_session_flags:
  "hasStorage (run_session es st) = hasStorage st
   \<and> readable (localStorage (run_session es st)) = readable (localStorage st)
   \<and> writable (localStorage (run_session es st)) = writable (localStorage st)"
proof (induction es st rule: run_session.induct)
  case (1 st)
  then show ?case by simp
next
  case (2 c es st)
  then show ?case
    by (cases "call c st") (simp_all add: call_flags)
next
  case (3 es st)
  then show ?case by simp
qed

lemma new_flags [simp]:
  "hasStorage (new_WorkflowStore hs stg) = hs"
  "localStorage (new_WorkflowStore hs stg) = stg"
  by (simp_all add: new_WorkflowStore_def)

section \<open>Saving and reloading\<close>

lemma state_reload_saved:
  assumes "hasStorage st" and "readable (localStorage st)" and "writable (localStorage st)"
  shows "state (reload (saveState st)) = mergedState defaultState (to_json (state_value (state st)))"
  using assms
  by (simp add: reload_def new_WorkflowStore_def loadState_def getItem_def localStorage_saveState
      AList.update_conv' JSON_stringify_def blob_not_nullish del: to_json.simps)

text \<open>
  C1, as the code has it. Take a store over a readable and writable browser storage in
  which nothing is saved, and any session on it: calls of the public operations, with
  finite numbers in their arguments, and reloads of the page. Saving the state reached
  and loading it again gives a state equivalent to it (\<open>reload_equiv\<close>): a member of a
  section, of \<^verbatim>\<open>qa.params\<close> or of \<^verbatim>\<open>evaluation.params\<close> is the saved one or, where the
  blob has none, the one of \<^verbatim>\<open>defaultState\<close>, \<^verbatim>\<open>defaultQAParams\<close>,
  \<^verbatim>\<open>defaultEvaluationParams\<close>; the stages are the saved stages, member by member, with no
  default filled in.
\<close>

theorem save_reload_round_trip:
  assumes "map_of (items stg) STORAGE_KEY = None" and "readable stg" and "writable stg"
    and "list_all finite_event es"
  shows "reload_equiv (state (run_session es (new_WorkflowStore True stg)))
           (state (reload (saveState (run_session es (new_WorkflowStore True stg)))))"
proof -
  let ?st = "run_session es (new_WorkflowStore True stg)"
  have inv: "store_inv ?st"
    by (intro store_inv_run_session store_inv_new stored_ok_nothing assms(1) assms(4))
  have fl: "hasStorage ?st" "readable (localStorage ?st)" "writable (localStorage ?st)"
    using run_session_flags [of es "new_WorkflowStore True stg"] assms(2,3) by simp_all
  have "shape (state ?st)" using inv by (simp add: store_inv_def)
  then show ?thesis
    unfolding state_reload_saved [OF fl] by (rule reload_equiv_merged)
qed



theorem save_reload_round_trip_witness:
  "reload_equiv
     (state (run_session [Call ResetQA, Reload, Call (SetQAStep (Number 2))]
        (new_WorkflowStore True \<lparr>items = [], readable = True, writable = True\<rparr>)))
     (state (reload (saveState (run_session [Call ResetQA, Reload, Call (SetQAStep (Number 2))]
        (new_WorkflowStore True \<lparr>items = [], readable = True, writable = True\<rparr>)))))"
  using save_reload_round_trip
    [of "\<lparr>items = [], readable = True, writable = True\<rparr>"
        "[Call ResetQA, Reload, Call (SetQAStep (Number 2))]"]
  by simp

text \<open>
  The claim as stated has every reachable state restored, every key that the blob lacks
  filled from the defaults. A stage snapshot is not filled: after
  \<^verbatim>\<open>updateEvaluationStage('init', { progress: undefined })\<close> the blob that is stored has no
  \<^verbatim>\<open>progress\<close> in the stage \<open>init\<close>, the default stage has \<^verbatim>\<open>progress: 0\<close>, and in the
  reloaded state the member is \<^verbatim>\<open>undefined\<close>. And a number that is not finite is not
  restored: after \<^verbatim>\<open>setQAStep(NaN)\<close> the blob holds \<^verbatim>\<open>null\<close> and the reloaded step is 0.
\<close>

theorem round_trip_counterexample:
  "map_of (items (localStorage
      (run [UpdateEvaluationStage Init [(''progress'', PUndefined)]]
         (new_WorkflowStore True \<lparr>items = [], readable = True, writable = True\<rparr>)))) STORAGE_KEY
     = Some (Json (to_json (state_value (state
         (run [UpdateEvaluationStage Init [(''progress'', PUndefined)]]
            (new_WorkflowStore True \<lparr>items = [], readable = True, writable = True\<rparr>))))))
   \<and> get_member (get_member (get_member (get_member
         (to_json (state_value (state
            (run [UpdateEvaluationStage Init [(''progress'', PUndefined)]]
               (new_WorkflowStore True \<lparr>items = [], readable = True, writable = True\<rparr>)))))
         ''evaluation'') ''stages'') ''init'') ''progress'' = Undefined
   \<and> get_member (get_member (JObj createDefaultEvaluationStages) ''init'') ''progress'' = JNum 0
   \<and> get_member (get_member (current_stages (reload (saveState
         (run [UpdateEvaluationStage Init [(''progress'', PUndefined)]]
            (new_WorkflowStore True \<lparr>items = [], readable = True, writable = True\<rparr>)))))
         ''init'') ''progress'' = Undefined
   \<and> get_member (JObj (qa (state
         (run [SetQAStep (NonFinite NaN)]
            (new_WorkflowStore True \<lparr>items = [], readable = True, writable = True\<rparr>)))))
         ''step'' = JNonFinite NaN
   \<and> get_member (JObj (qa (state (reload (saveState
         (run [SetQAStep (NonFinite NaN)]
            (new_WorkflowStore True \<lparr>items = [], readable = True, writable = True\<rparr>)))))))
         ''step'' = JNum 0"
  by code_simp


section \<open>Loading when the saved state cannot be read\<close>

lemma spread_nothing: "spread t (JObj []) = t"
  by (simp add: spread_def)

lemma merged_primitive:
  assumes "\<forall>kvs. v \<noteq> JObj kvs"
  shows "mergedState defaultState v =
     \<lparr>flmm = [(''processCompleted'', JBool False)],
      qa = [(''processCompleted'', JBool False), (''step'', JNum 0), (''params'', JObj defaultQAParams)],
      evaluation = [(''workflowCompleted'', JBool False),
                    (''stages'', JObj createDefaultEvaluationStages),
                    (''params'', JObj defaultEvaluationParams)]\<rparr>"
proof -
  have m: "get_member v k = Undefined" for k
    using assms by (cases v) simp_all
  show ?thesis
    by (simp add: mergedState_def m opt_member_def nullish_def or_else_def coalesce_def
        defaultState_sections spread_copy spread_nothing copy_defaultQAParams
        copy_defaultEvaluationParams)
qed

lemma loadState_not_object:
  assumes "\<not> readable stg
         \<or> map_of (items stg) STORAGE_KEY = Some Malformed
         \<or> (\<exists>v. map_of (items stg) STORAGE_KEY = Some (Json v) \<and> (\<forall>kvs. v \<noteq> JObj kvs))"
  shows "loadState defaultState True stg = fallbackState defaultState
       \<or> (\<exists>v. (\<forall>kvs. v \<noteq> JObj kvs) \<and> loadState defaultState True stg = mergedState defaultState v)"
proof -
  consider (a) "\<not> readable stg"
    | (b) "map_of (items stg) STORAGE_KEY = Some Malformed"
    | (c) v where "map_of (items stg) STORAGE_KEY = Some (Json v)" "\<forall>kvs. v \<noteq> JObj kvs"
    using assms by (elim disjE exE conjE)
  then show ?thesis
  proof cases
    case a
    then show ?thesis by (simp add: loadState_def getItem_def)
  next
    case b
    then show ?thesis by (simp add: loadState_def getItem_def)
  next
    case c
    show ?thesis
    proof (cases "readable stg \<and> \<not> nullish v")
      case True
      then have "loadState defaultState True stg = mergedState defaultState v"
        using c(1) by (simp add: loadState_def getItem_def)
      with c(2) have "(\<forall>kvs. v \<noteq> JObj kvs)
          \<and> loadState defaultState True stg = mergedState defaultState v"
        by (rule conjI)
      then have "\<exists>v. (\<forall>kvs. v \<noteq> JObj kvs)
          \<and> loadState defaultState True stg = mergedState defaultState v"
        by (rule exI)
      then show ?thesis by (rule disjI2)
    next
      case False
      then have "loadState defaultState True stg = fallbackState defaultState"
        using c(1) by (auto simp: loadState_def getItem_def)
      then show ?thesis by (rule disjI1)
    qed
  qed
qed

text \<open>
  C4. When the saved state cannot be read as an object, \<^verbatim>\<open>loadState\<close> returns the
  default state: the flags false, \<^verbatim>\<open>qa.step\<close> 0, no evaluation id, the default
  parameters and the four default stages. The cases: \<^verbatim>\<open>getItem\<close> throws; \<^verbatim>\<open>JSON.parse\<close>
  throws; the parsed value is not an object (it is \<^verbatim>\<open>null\<close>, whose member \<^verbatim>\<open>flmm\<close>
  cannot be read, or a number, a string or a boolean, which has none of the members).
\<close>

theorem loadState_failure_defaults:
  assumes "\<not> readable stg
         \<or> map_of (items stg) STORAGE_KEY = Some Malformed
         \<or> (\<exists>v. map_of (items stg) STORAGE_KEY = Some (Json v) \<and> (\<forall>kvs. v \<noteq> JObj kvs))"
  shows "flmm (loadState defaultState True stg) = [(''processCompleted'', JBool False)]
       \<and> qa (loadState defaultState True stg) =
           [(''processCompleted'', JBool False), (''step'', JNum 0), (''params'', JObj defaultQAParams)]
       \<and> get_member (JObj (evaluation (loadState defaultState True stg))) ''workflowCompleted''
           = JBool False
       \<and> get_member (JObj (evaluation (loadState defaultState True stg))) ''evaluationId''
           = Undefined
       \<and> get_member (JObj (evaluation (loadState defaultState True stg))) ''stages''
           = JObj createDefaultEvaluationStages
       \<and> get_member (JObj (evaluation (loadState defaultState True stg))) ''params''
           = JObj defaultEvaluationParams
       \<and> set (map fst (evaluation (loadState defaultState True stg)))
           \<subseteq> {''workflowCompleted'', ''evaluationId'', ''stages'', ''params''}"
proof -
  from loadState_not_object [OF assms]
  consider "loadState defaultState True stg = fallbackState defaultState"
    | v where "\<forall>kvs. v \<noteq> JObj kvs" "loadState defaultState True stg = mergedState defaultState v"
    by (elim disjE exE conjE)
  then show ?thesis
  proof cases
    case 1
    show ?thesis
      unfolding 1 fallbackState_default by simp
  next
    case 2
    show ?thesis
      unfolding 2(2) merged_primitive [OF 2(1)] by simp
  qed
qed

theorem loadState_failure_defaults_witness:
  "get_member (JObj (evaluation (loadState defaultState True
       \<lparr>items = [(STORAGE_KEY, Malformed)], readable = True, writable = True\<rparr>))) ''stages''
     = JObj createDefaultEvaluationStages
   \<and> get_member (JObj (evaluation (loadState defaultState True
       \<lparr>items = [(STORAGE_KEY, Json Null)], readable = True, writable = True\<rparr>))) ''stages''
     = JObj createDefaultEvaluationStages
   \<and> get_member (JObj (evaluation (loadState defaultState True
       \<lparr>items = [(STORAGE_KEY, Json (JNum 5))], readable = True, writable = True\<rparr>))) ''stages''
     = JObj createDefaultEvaluationStages
   \<and> qa (loadState defaultState True \<lparr>items = [], readable = False, writable = True\<rparr>) =
       [(''processCompleted'', JBool False), (''step'', JNum 0), (''params'', JObj defaultQAParams)]"
  using loadState_failure_defaults
      [of "\<lparr>items = [(STORAGE_KEY, Malformed)], readable = True, writable = True\<rparr>"]
    loadState_failure_defaults
      [of "\<lparr>items = [(STORAGE_KEY, Json Null)], readable = True, writable = True\<rparr>"]
    loadState_failure_defaults
      [of "\<lparr>items = [(STORAGE_KEY, Json (JNum 5))], readable = True, writable = True\<rparr>"]
    loadState_failure_defaults
      [of "\<lparr>items = [], readable = False, writable = True\<rparr>"]
  by simp


section \<open>A session of stage updates\<close>

theorem evaluation_stage_keys_witness:
  "stage_keys
     (run [BulkUpdateEvaluationStages
             [(''fifth'', [(''progress'', PNum 50)]), (''stage1'', [(''progress'', PNum 50)])],
           UpdateEvaluationStage Result [(''status'', PStr ''completed'')]]
        (new_WorkflowStore True \<lparr>items = [], readable = True, writable = True\<rparr>))
   = [''init'', ''stage1'', ''stage2'', ''result'']"
  using evaluation_stage_keys
    [of "\<lparr>items = [], readable = True, writable = True\<rparr>"
        "[BulkUpdateEvaluationStages
             [(''fifth'', [(''progress'', PNum 50)]), (''stage1'', [(''progress'', PNum 50)])],
           UpdateEvaluationStage Result [(''status'', PStr ''completed'')]]"
        True "[]"]
  by simp


section \<open>Persistence\<close>



subsection \<open>The nested objects\<close>




























section \<open>Gating of the analysis views\<close>

text \<open>
  C2, as the code has it. Each of the three predicates returns the completion flag of
  its module, and the effect of the guard opens the warning exactly when its predicate
  is not truthy. Of the three analysis views only that of the evaluation installs the
  guard: it is blocked exactly when \<^verbatim>\<open>evaluation.workflowCompleted\<close> is not truthy, and the
  buttons of its warning navigate to \<^verbatim>\<open>/eval/process\<close>, which is not a route of the
  application. The analysis views of FLMM and of QA are never blocked.
\<close>

theorem analysis_view_gate:
  "canAccessFLMMAnalysis st = completion_flag FLMMAnalysis st
   \<and> canAccessQAAnalysis st = completion_flag QAResults st
   \<and> canAccessEvaluationAnalysis st = completion_flag EvalAnalysis st
   \<and> blocked (guard_effect opts st new_Guard) = (\<not> truthy (canAccess opts st))
   \<and> blocked (mount_view EvalAnalysis st) = (\<not> truthy (completion_flag EvalAnalysis st))
   \<and> snd (press_modal (mount_view EvalAnalysis st)) =
       (if truthy (completion_flag EvalAnalysis st) then None else Some ''/eval/process'')
   \<and> ''/eval/process'' \<notin> set routes
   \<and> \<not> blocked (mount_view FLMMAnalysis st)
   \<and> \<not> blocked (mount_view QAResults st)"
  by (simp add: canAccessFLMMAnalysis_def canAccessQAAnalysis_def canAccessEvaluationAnalysis_def
      completion_flag_def blocked_def guard_effect_def new_Guard_def mount_view_def view_guard_def
      press_modal_def routes_def)



section \<open>The progress event stream\<close>

lemma deliver_closed: "eventSourceRef s \<noteq> Some Open \<Longrightarrow> deliver e s = s"
  by (simp add: deliver_def)

lemma deliver_all_closed: "eventSourceRef s \<noteq> Some Open \<Longrightarrow> deliver_all es s = s"
  unfolding deliver_all_def by (induction es) (simp_all add: deliver_closed)

lemma deliver_all_Cons: "deliver_all (e # es) s = deliver_all es (deliver e s)"
  by (simp add: deliver_all_def)

lemma deliver_open:
  assumes "eventSourceRef s = Some Open"
  shows "eventSourceRef (deliver e s) = (if closing_event e then Some Closed else Some Open)"
    and "closing_event e \<Longrightarrow> \<not> isProcessing (deliver e s)"
proof -
  show "eventSourceRef (deliver e s) = (if closing_event e then Some Closed else Some Open)"
  proof (cases e)
    case (CompleteEvent d)
    then show ?thesis
      using assms
      by (cases d)
        (simp_all add: deliver_def on_complete_def close_stream_def Let_def)
  next
    case (ErrorEvent d)
    then show ?thesis
      using assms by (simp add: deliver_def onerror_handler_def close_stream_def)
  qed (use assms in \<open>simp_all add: deliver_def on_progress_def on_log_def split: event_data.splits\<close>)
  show "\<not> isProcessing (deliver e s)" if "closing_event e"
  proof (cases e)
    case (CompleteEvent d)
    then show ?thesis
      using assms that
      by (cases d)
        (simp_all add: deliver_def on_complete_def close_stream_def Let_def)
  next
    case (ErrorEvent d)
    then show ?thesis
      using assms by (simp add: deliver_def onerror_handler_def close_stream_def)
  qed (use that in simp_all)
qed

lemma stream_open_or_closed:
  assumes "eventSourceRef s = Some Open"
  shows "eventSourceRef (deliver_all es s) =
           (if \<exists>e\<in>set es. closing_event e then Some Closed else Some Open)
       \<and> ((\<exists>e\<in>set es. closing_event e) \<longrightarrow> \<not> isProcessing (deliver_all es s))"
  using assms
proof (induction es arbitrary: s)
  case Nil
  then show ?case by (simp add: deliver_all_def)
next
  case (Cons e es)
  show ?case
  proof (cases "closing_event e")
    case True
    have c: "eventSourceRef (deliver e s) = Some Closed"
      using deliver_open(1) [OF Cons.prems, of e] True by simp
    then have "deliver_all es (deliver e s) = deliver e s"
      by (intro deliver_all_closed) simp
    then show ?thesis
      using c deliver_open(2) [OF Cons.prems True] True by (simp add: deliver_all_Cons)
  next
    case False
    have "eventSourceRef (deliver e s) = Some Open"
      using deliver_open(1) [OF Cons.prems, of e] False by simp
    from Cons.IH [OF this] show ?thesis
      using False by (simp add: deliver_all_Cons)
  qed
qed

text \<open>
  C6, as the code has it. The stream that the page has opened stays open until the first
  event that closes it, and no event is handled after that one. The events that close
  it: an \<^verbatim>\<open>error\<close> event or connection error, and a \<^verbatim>\<open>complete\<close> event whose data is a
  JSON text other than \<^verbatim>\<open>null\<close>; with the closing, \<^verbatim>\<open>isProcessing\<close> is false. A
  \<^verbatim>\<open>progress\<close> or \<^verbatim>\<open>log\<close> event sets the progress data or adds to the logs, an event of
  another name does nothing, and a \<^verbatim>\<open>complete\<close> event whose data is no JSON text does
  nothing.
\<close>

theorem stream_consumed_until_closing_event:
  assumes "eventSourceRef s = Some Open"
  shows "eventSourceRef (deliver_all es s) =
           (if \<exists>e\<in>set es. closing_event e then Some Closed else Some Open)
       \<and> ((\<exists>e\<in>set es. closing_event e) \<longrightarrow> \<not> isProcessing (deliver_all es s))
       \<and> (closing_event e \<longrightarrow> deliver_all (e # es) s = deliver e s)
       \<and> deliver (ProgressEvent (Parsed v)) s = s\<lparr>progressData := v\<rparr>
       \<and> deliver (LogEvent (Parsed v)) s = s\<lparr>logs := logs s @ [v]\<rparr>
       \<and> deliver (OtherEvent name d) s = s
       \<and> deliver (CompleteEvent Unparseable) s = s"
proof (intro conjI impI)
  show "eventSourceRef (deliver_all es s) =
      (if \<exists>e\<in>set es. closing_event e then Some Closed else Some Open)"
    using stream_open_or_closed [OF assms] by (rule conjunct1)
  show "\<not> isProcessing (deliver_all es s)" if "\<exists>e\<in>set es. closing_event e"
    using stream_open_or_closed [OF assms, of es] that by simp
  show "deliver_all (e # es) s = deliver e s" if "closing_event e"
  proof -
    have "eventSourceRef (deliver e s) = Some Closed"
      using deliver_open(1) [OF assms, of e] that by simp
    then show ?thesis
      unfolding deliver_all_Cons by (intro deliver_all_closed) simp
  qed
qed (use assms in \<open>simp_all add: deliver_def on_progress_def on_log_def on_complete_def\<close>)

theorem stream_consumed_until_closing_event_witness:
  "eventSourceRef (deliver_all
      [ProgressEvent (Parsed Null), CompleteEvent (Parsed (JObj [(''status'', JStr ''failed'')])),
       LogEvent (Parsed Null)]
      (mount_QAStatus (Some ''t''))) = Some Closed
   \<and> \<not> isProcessing (deliver_all
      [ProgressEvent (Parsed Null), CompleteEvent (Parsed (JObj [(''status'', JStr ''failed'')])),
       LogEvent (Parsed Null)]
      (mount_QAStatus (Some ''t'')))
   \<and> eventSourceRef (deliver_all [ProgressEvent (Parsed Null), LogEvent Unparseable]
      (mount_QAStatus (Some ''t''))) = Some Open"
  using stream_consumed_until_closing_event
      [of "mount_QAStatus (Some ''t'')"
          "[ProgressEvent (Parsed Null), CompleteEvent (Parsed (JObj [(''status'', JStr ''failed'')])),
            LogEvent (Parsed Null)]"]
    stream_consumed_until_closing_event
      [of "mount_QAStatus (Some ''t'')" "[ProgressEvent (Parsed Null), LogEvent Unparseable]"]
  by (simp add: mount_QAStatus_def stream_effect_def new_QAStatus_def nullish_def)

text \<open>
  The claim as stated has the stream closed and \<^verbatim>\<open>isProcessing\<close> false on every
  \<^verbatim>\<open>complete\<close> event. One whose data \<^verbatim>\<open>JSON.parse\<close> rejects leaves the stream open and
  \<^verbatim>\<open>isProcessing\<close> true.
\<close>

theorem complete_event_unparseable_counterexample:
  "terminal_event (CompleteEvent Unparseable)
   \<and> eventSourceRef (mount_QAStatus (Some ''t'')) = Some Open
   \<and> eventSourceRef (deliver (CompleteEvent Unparseable) (mount_QAStatus (Some ''t''))) = Some Open
   \<and> isProcessing (deliver (CompleteEvent Unparseable) (mount_QAStatus (Some ''t'')))"
  by (simp add: deliver_def on_complete_def mount_QAStatus_def stream_effect_def new_QAStatus_def)



section \<open>Polling of the task status\<close>

lemma one_timer_new: "one_timer new_Poller"
  by (simp add: one_timer_def new_Poller_def)

lemma one_timer_flags:
  "one_timer (p\<lparr>workflowNotified := b\<rparr>) = one_timer p"
  "one_timer (p\<lparr>completed_workflows := w\<rparr>) = one_timer p"
  "one_timer (p\<lparr>awaiting := a\<rparr>) = one_timer p"
  "one_timer (p\<lparr>taskId := t\<rparr>) = one_timer p"
  "one_timer (p\<lparr>mounted := m\<rparr>) = one_timer p"
  "one_timer (p\<lparr>requests := r\<rparr>) = one_timer p"
  "one_timer (p\<lparr>effect_deps := d\<rparr>) = one_timer p"
  by (simp_all add: one_timer_def cong: option.case_cong)

lemma one_timer_fetchStatus: "one_timer p \<Longrightarrow> one_timer (fetchStatus f p)"
  by (simp add: fetchStatus_def one_timer_flags)

lemma one_timer_cleared:
  assumes "one_timer p" and "polling p"
  shows "timers (clearInterval (the (pollingRef p)) p) = []"
    and "next_handle (clearInterval (the (pollingRef p)) p) = next_handle p"
  using assms
  by (auto simp: one_timer_def polling_def clearInterval_def split: option.splits)

lemma one_timer_not_polling: "one_timer p \<Longrightarrow> \<not> polling p \<Longrightarrow> pollingRef p = None \<and> timers p = []"
  by (auto simp: one_timer_def polling_def split: option.splits)

lemma one_timer_cleanup:
  assumes "one_timer p"
  shows "one_timer (polling_cleanup p)" and "timers (polling_cleanup p) = []"
    and "pollingRef (polling_cleanup p) = None"
    and "requests (polling_cleanup p) = requests p"
proof -
  show "timers (polling_cleanup p) = []"
    using one_timer_cleared [OF assms] one_timer_not_polling [OF assms]
    by (simp add: polling_cleanup_def)
  moreover show "pollingRef (polling_cleanup p) = None"
    using one_timer_not_polling [OF assms] by (simp add: polling_cleanup_def)
  moreover have "0 < next_handle (polling_cleanup p)"
    using assms by (simp add: polling_cleanup_def one_timer_def clearInterval_def)
  ultimately show "one_timer (polling_cleanup p)"
    by (simp add: one_timer_def)
  show "requests (polling_cleanup p) = requests p"
    by (simp add: polling_cleanup_def clearInterval_def)
qed

lemma one_timer_set:
  assumes "0 < next_handle p" and "timers p = []"
  shows "one_timer ((setInterval f d p)\<lparr>pollingRef := Some (next_handle p)\<rparr>)"
  using assms by (simp add: one_timer_def setInterval_def)

lemma one_timer_effect:
  assumes "one_timer p" and "timers p = []"
  shows "one_timer (polling_effect p)"
proof (cases "seen_taskId (current_closure p) = []")
  case True
  then show ?thesis
    using assms(1) by (simp add: polling_effect_def Let_def one_timer_flags)
next
  case False
  have "0 < next_handle (fetchStatus (current_closure p) p)"
      "timers (fetchStatus (current_closure p) p) = []"
    using assms by (simp_all add: fetchStatus_def one_timer_def)
  from one_timer_set [OF this] show ?thesis
    using False by (simp add: polling_effect_def Let_def one_timer_flags)
qed

lemma polling_flags:
  "polling (p\<lparr>workflowNotified := b\<rparr>) = polling p"
  "polling (p\<lparr>completed_workflows := w\<rparr>) = polling p"
  by (simp_all add: polling_def)

lemma one_timer_on_report:
  assumes "one_timer p"
  shows "one_timer (on_report f status p)"
proof -
  define p2 where "p2 =
    (let p1 = (if status = ''completed'' \<and> \<not> seen_notified f
               then p\<lparr>completed_workflows := completed_workflows p @ [seen_taskId f],
                      workflowNotified := True\<rparr>
               else p)
     in (if status = ''failed'' \<and> \<not> seen_notified f then p1\<lparr>workflowNotified := True\<rparr> else p1))"
  have p2: "one_timer p2"
    using assms by (simp add: p2_def Let_def one_timer_flags)
  have r: "on_report f status p =
    (if terminal status \<and> polling p2
     then (clearInterval (the (pollingRef p2)) p2)\<lparr>pollingRef := None\<rparr>
     else if \<not> terminal status \<and> polling p2
     then (setInterval f (if status = ''processing'' then 1000 else 4000)
             (clearInterval (the (pollingRef p2)) p2))
          \<lparr>pollingRef := Some (next_handle (clearInterval (the (pollingRef p2)) p2))\<rparr>
     else p2)"
    by (simp add: on_report_def p2_def Let_def)
  show ?thesis
  proof (cases "polling p2")
    case False
    then show ?thesis using p2 by (simp add: r)
  next
    case True
    note c = one_timer_cleared [OF p2 True]
    have pos: "0 < next_handle (clearInterval (the (pollingRef p2)) p2)"
      using p2 by (simp add: c(2) one_timer_def)
    show ?thesis
    proof (cases "terminal status")
      case t: True
      have "one_timer ((clearInterval (the (pollingRef p2)) p2)\<lparr>pollingRef := None\<rparr>)"
        using c(1) pos by (simp add: one_timer_def)
      then show ?thesis using True t by (simp add: r)
    next
      case t: False
      show ?thesis
        using True t one_timer_set [OF pos c(1)] by (simp add: r)
    qed
  qed
qed

lemma one_timer_step:
  assumes "one_timer p"
  shows "one_timer (poll_step e p)"
proof (cases e)
  case (StartEvaluation t)
  then show ?thesis using assms by (simp add: startEvaluation_def one_timer_flags)
next
  case Commit
  show ?thesis
    unfolding Commit poll_step.simps react_commit_def
    using assms one_timer_effect [OF one_timer_cleanup(1,2) [OF assms]] by simp
next
  case (Tick h)
  then show ?thesis
    using assms by (simp add: tick_def one_timer_fetchStatus split: option.splits)
next
  case (Respond n a)
  show ?thesis
  proof (cases "map_of (awaiting p) n")
    case None
    then show ?thesis using assms Respond by (simp add: respond_def)
  next
    case (Some f)
    have "one_timer (p\<lparr>awaiting := filter (\<lambda>r. fst r \<noteq> n) (awaiting p)\<rparr>)"
      using assms by (simp add: one_timer_flags)
    then show ?thesis
      using Some Respond by (cases a) (simp_all add: respond_def Let_def one_timer_on_report)
  qed
next
  case Unmount
  then show ?thesis
    using assms one_timer_cleanup(1) [OF assms] by (simp add: unmount_Poller_def one_timer_flags)
qed


lemma one_timer_run: "one_timer p \<Longrightarrow> one_timer (poll_run es p)"
  by (induction es rule: rev_induct) (simp_all add: poll_run_def one_timer_step)


lemma on_report_timers:
  assumes "one_timer p"
  shows "terminal status \<Longrightarrow> timers (on_report f status p) = []"
    and "\<not> terminal status \<Longrightarrow> polling p \<Longrightarrow>
         map delay (timers (on_report f status p)) = [if status = ''processing'' then 1000 else 4000]"
proof -
  define p2 where "p2 =
    (let p1 = (if status = ''completed'' \<and> \<not> seen_notified f
               then p\<lparr>completed_workflows := completed_workflows p @ [seen_taskId f],
                      workflowNotified := True\<rparr>
               else p)
     in (if status = ''failed'' \<and> \<not> seen_notified f then p1\<lparr>workflowNotified := True\<rparr> else p1))"
  have p2: "one_timer p2"
    using assms by (simp add: p2_def Let_def one_timer_flags)
  have pol: "polling p2 = polling p"
    by (simp add: p2_def Let_def polling_flags)
  have r: "on_report f status p =
    (if terminal status \<and> polling p2
     then (clearInterval (the (pollingRef p2)) p2)\<lparr>pollingRef := None\<rparr>
     else if \<not> terminal status \<and> polling p2
     then (setInterval f (if status = ''processing'' then 1000 else 4000)
             (clearInterval (the (pollingRef p2)) p2))
          \<lparr>pollingRef := Some (next_handle (clearInterval (the (pollingRef p2)) p2))\<rparr>
     else p2)"
    by (simp add: on_report_def p2_def Let_def)
  show "timers (on_report f status p) = []" if "terminal status"
  proof (cases "polling p2")
    case True
    then show ?thesis using that one_timer_cleared(1) [OF p2 True] by (simp add: r)
  next
    case False
    then show ?thesis using that one_timer_not_polling [OF p2 False] by (simp add: r)
  qed
  show "map delay (timers (on_report f status p)) = [if status = ''processing'' then 1000 else 4000]"
    if "\<not> terminal status" "polling p"
  proof -
    have True: "polling p2" using that(2) pol by simp
    show ?thesis
      using that(1) True one_timer_cleared(1) [OF p2 True] by (simp add: r setInterval_def)
  qed
qed

lemma restart_after_terminal_report:
  assumes "t \<noteq> []" and "terminal status"
  shows "requests (poll_run [StartEvaluation t, Commit, Respond 0 (Resolved status)] new_Poller) = [t]"
    and "timers (poll_run [StartEvaluation t, Commit, Respond 0 (Resolved status)] new_Poller) = []"
    and "requests (poll_run [StartEvaluation t, Commit, Respond 0 (Resolved status), Commit]
           new_Poller) = [t, t]"
    and "map delay (timers (poll_run [StartEvaluation t, Commit, Respond 0 (Resolved status), Commit]
           new_Poller)) = [4000]"
proof -
  consider "status = ''completed''" | "status = ''failed''"
    using assms(2) by (auto simp: terminal_def)
  then have "requests (poll_run [StartEvaluation t, Commit, Respond 0 (Resolved status)] new_Poller) = [t]
    \<and> timers (poll_run [StartEvaluation t, Commit, Respond 0 (Resolved status)] new_Poller) = []
    \<and> requests (poll_run [StartEvaluation t, Commit, Respond 0 (Resolved status), Commit]
           new_Poller) = [t, t]
    \<and> map delay (timers (poll_run [StartEvaluation t, Commit, Respond 0 (Resolved status), Commit]
           new_Poller)) = [4000]"
  proof cases
    case 1
    show ?thesis
      unfolding 1 using assms(1)
      by (simp add: poll_run_def new_Poller_def startEvaluation_def react_commit_def
          polling_cleanup_def polling_def polling_effect_def current_closure_def fetchStatus_def
          setInterval_def clearInterval_def respond_def on_report_def terminal_def Let_def)
  next
    case 2
    show ?thesis
      unfolding 2 using assms(1)
      by (simp add: poll_run_def new_Poller_def startEvaluation_def react_commit_def
          polling_cleanup_def polling_def polling_effect_def current_closure_def fetchStatus_def
          setInterval_def clearInterval_def respond_def on_report_def terminal_def Let_def)
  qed
  then show
    "requests (poll_run [StartEvaluation t, Commit, Respond 0 (Resolved status)] new_Poller) = [t]"
    "timers (poll_run [StartEvaluation t, Commit, Respond 0 (Resolved status)] new_Poller) = []"
    "requests (poll_run [StartEvaluation t, Commit, Respond 0 (Resolved status), Commit]
           new_Poller) = [t, t]"
    "map delay (timers (poll_run [StartEvaluation t, Commit, Respond 0 (Resolved status), Commit]
           new_Poller)) = [4000]"
    by simp_all
qed

text \<open>
  C5, as the code has it. A report that is not terminal, handled while the page polls,
  leaves one interval timer, of 1000 ms when the status is \<open>processing\<close> and of 4000 ms
  otherwise; a terminal report (\<open>completed\<close>, \<open>failed\<close>) leaves no timer. But the first
  terminal report of a task also sets \<^verbatim>\<open>workflowNotified\<close>, a dependency of the effect: at
  the next commit the effect is run again, sends one more status request and sets a new
  interval of 4000 ms.
\<close>

theorem polling_after_report:
  "(\<not> terminal status \<and> polling (poll_run es new_Poller) \<longrightarrow>
      map delay (timers (on_report f status (poll_run es new_Poller)))
        = [if status = ''processing'' then 1000 else 4000])
   \<and> (terminal status \<longrightarrow> timers (on_report f status (poll_run es new_Poller)) = [])
   \<and> (terminal status \<and> t \<noteq> [] \<longrightarrow>
        requests (poll_run [StartEvaluation t, Commit, Respond 0 (Resolved status)] new_Poller) = [t]
      \<and> timers (poll_run [StartEvaluation t, Commit, Respond 0 (Resolved status)] new_Poller) = []
      \<and> requests (poll_run [StartEvaluation t, Commit, Respond 0 (Resolved status), Commit]
           new_Poller) = [t, t]
      \<and> map delay (timers (poll_run [StartEvaluation t, Commit, Respond 0 (Resolved status), Commit]
           new_Poller)) = [4000])"
proof -
  have inv: "one_timer (poll_run es new_Poller)"
    by (intro one_timer_run one_timer_new)
  show ?thesis
    using on_report_timers [OF inv, of status f] restart_after_terminal_report [of t status]
    by simp
qed

theorem polling_after_report_witness:
  "requests (poll_run [StartEvaluation ''t'', Commit, Respond 0 (Resolved ''completed''), Commit]
      new_Poller) = [''t'', ''t'']
   \<and> map delay (timers (poll_run
        [StartEvaluation ''t'', Commit, Respond 0 (Resolved ''completed''), Commit] new_Poller))
      = [4000]
   \<and> map delay (timers (on_report \<lparr>seen_taskId = ''t'', seen_notified = False\<rparr> ''processing''
        (poll_run [StartEvaluation ''t'', Commit] new_Poller))) = [1000]"
  using polling_after_report
      [of "''completed''" "[]" "\<lparr>seen_taskId = ''t'', seen_notified = False\<rparr>" "''t''"]
    polling_after_report
      [of "''processing''" "[StartEvaluation ''t'', Commit]"
          "\<lparr>seen_taskId = ''t'', seen_notified = False\<rparr>" "''t''"]
  by (simp add: terminal_def poll_run_def new_Poller_def startEvaluation_def react_commit_def
      polling_cleanup_def polling_def polling_effect_def current_closure_def fetchStatus_def
      setInterval_def Let_def)


section \<open>Unmounting\<close>








end
